theory Spec2Isabelle
  imports Complex_Main "HOL-Library.Log_Nat"
begin

unbundle bit_operations_syntax

section \<open>JavaScript numbers\<close>

text \<open>
  Every number of the program is an IEEE double: a finite number, modelled by its exact
  rational value, \<open>NaN\<close>, or an infinity. Counts, coordinates and indices are integers far
  below \<open>2^53\<close>, where double arithmetic is exact, and are modelled by \<open>int\<close> and \<open>nat\<close>.
  Seeds are numbers of any kind. The update of the random generator's state multiplies to
  near \<open>2^61\<close>, so there, and where a seed is added to, the rounding of the double
  operation is written out (\<open>rn\<close>: round to nearest, ties to even, 53 significant bits).
  A result beyond the largest double, an infinity in the program, stays a finite multiple
  of \<open>2^971\<close> here, and a result below the smallest normal double keeps 53 bits; neither
  changes the 32-bit integer the generator reads from the sum. The editor of branch
  weights computes with weights of any size, so its operations are given apart, with the
  infinities and the subnormal numbers. Quotients and products of
  the numbers drawn are taken exactly: the modulus \<open>2^31 - 1\<close> is prime, so a product
  \<open>state * k / (2^31 - 1)\<close> with \<open>k < 2^21\<close> is an integer only for the states \<open>0\<close> and
  \<open>2^31 - 1\<close>, where the double operations are exact, and is otherwise further from every
  integer than the rounding error; the floor taken by the program is the floor of the
  exact value.
\<close>

definition expo :: "rat \<Rightarrow> int" where
  \<comment> \<open>the exponent of the last place: \<open>2^52 \<le> \<bar>x\<bar> / 2^expo x < 2^53\<close>\<close>
  "expo x = (if 1 \<le> \<bar>x\<bar> then bitlen \<lfloor>\<bar>x\<bar>\<rfloor> - 53
             else - bitlen (\<lceil>1 / \<bar>x\<bar>\<rceil> - 1) - 52)"

definition round_even :: "rat \<Rightarrow> int" where
  "round_even y = (let f = \<lfloor>y\<rfloor>; r = y - of_int f
                   in if r < 1 / 2 then f else if 1 / 2 < r then f + 1
                      else if even f then f else f + 1)"

definition rn :: "rat \<Rightarrow> rat" where
  "rn x = (if x = 0 then 0
           else of_int (round_even (x / 2 powi expo x)) * 2 powi expo x)"

datatype number = Num rat | NaN | Infinity | NegInfinity

text \<open>The quotient of two finite numbers, the divisor possibly zero.\<close>

definition js_div :: "rat \<Rightarrow> rat \<Rightarrow> number" where
  "js_div a b = (if b = 0 then (if a = 0 then NaN else if 0 < a then Infinity else NegInfinity)
                 else Num (a / b))"

text \<open>The product and the sum of a number and a finite number.\<close>

definition js_times :: "number \<Rightarrow> rat \<Rightarrow> number" where
  "js_times a c =
     (case a of
        Num x \<Rightarrow> Num (rn (x * c))
      | NaN \<Rightarrow> NaN
      | Infinity \<Rightarrow> (if c = 0 then NaN else if 0 < c then Infinity else NegInfinity)
      | NegInfinity \<Rightarrow> (if c = 0 then NaN else if 0 < c then NegInfinity else Infinity))"

definition js_plus :: "number \<Rightarrow> rat \<Rightarrow> number" where
  "js_plus a c = (case a of Num x \<Rightarrow> Num (rn (x + c)) | _ \<Rightarrow> a)"

text \<open>\<open>ToInt32\<close>, the conversion applied by the bitwise operators: truncate towards zero,
  reduce modulo \<open>2^32\<close>, read as a signed 32-bit integer; \<open>NaN\<close> and the infinities
  become 0.\<close>

definition trunc32 :: "rat \<Rightarrow> int" where
  "trunc32 x = signed_take_bit 31 (if x < 0 then - \<lfloor>- x\<rfloor> else \<lfloor>x\<rfloor>)"

definition ToInt32 :: "number \<Rightarrow> int" where
  "ToInt32 a = (case a of Num x \<Rightarrow> trunc32 x | _ \<Rightarrow> 0)"

text \<open>\<open>Math.round\<close>: the nearest integer, halves towards plus infinity.\<close>

definition Math_round :: "rat \<Rightarrow> int" where
  "Math_round x = \<lfloor>x + 1 / 2\<rfloor>"

text \<open>Reading an array element: \<open>undefined\<close> (here \<open>None\<close>) outside the array.\<close>

definition nth_opt :: "'a list \<Rightarrow> int \<Rightarrow> 'a option" where
  "nth_opt xs i = (if 0 \<le> i \<and> i < int (length xs) then Some (xs ! nat i) else None)"

text \<open>The decimal digits of a counter, as a template literal prints it.\<close>

fun show_nat :: "nat \<Rightarrow> string" where
  "show_nat n = (if n < 10 then [''0123456789'' ! n]
                 else show_nat (n div 10) @ [''0123456789'' ! (n mod 10)])"

declare show_nat.simps [simp del]

section \<open>The seeded random number generator\<close>

text \<open>An object of the class \<open>SeededRandom\<close> is the value of its one field \<open>seed\<close>.
  Each method returns its result and the updated object.\<close>

type_synonym SeededRandom = number

definition rng_next :: "SeededRandom \<Rightarrow> rat \<times> SeededRandom" where
  "rng_next s =
     (let s' = ToInt32 (js_plus (js_times s 1103515245) 12345) AND 0x7fffffff
      in (of_int s' / 0x7fffffff, Num (of_int s')))"

text \<open>A number that is an integer, and a number that is not a fraction: an integer, \<open>NaN\<close>
  or an infinity.\<close>

definition integral :: "number \<Rightarrow> bool" where
  "integral a \<longleftrightarrow> (\<exists>t. a = Num (of_int t))"

definition whole :: "number \<Rightarrow> bool" where
  "whole a \<longleftrightarrow> (case a of Num x \<Rightarrow> x \<in> \<int> | _ \<Rightarrow> True)"

definition nextInt :: "int \<Rightarrow> int \<Rightarrow> SeededRandom \<Rightarrow> int \<times> SeededRandom" where
  "nextInt lo hi s =
     (let (v, s') = rng_next s in (\<lfloor>v * of_int (hi - lo + 1)\<rfloor> + lo, s'))"

definition pick :: "'a list \<Rightarrow> SeededRandom \<Rightarrow> 'a option \<times> SeededRandom" where
  "pick array s =
     (let (v, s') = rng_next s in (nth_opt array \<lfloor>v * of_nat (length array)\<rfloor>, s'))"

section \<open>The dungeon layout\<close>

record Position =
  pos_x :: int
  pos_y :: int

record Bounds =
  bounds_x :: int
  bounds_y :: int
  bounds_width :: int
  bounds_height :: int

record PlacedEntity =
  entity_id :: string
  entity_type :: "string option"
  entity_position :: Position

record RoomMetadata =
  difficulty :: number
  theme :: "string option"

record GeneratedRoom =
  room_id :: string
  room_type :: "string option"
  room_bounds :: Bounds
  room_entities :: "PlacedEntity list"
  room_metadata :: RoomMetadata

record RoomConnection =
  fromRoomId :: string
  toRoomId :: string
  fromDoor :: Position
  toDoor :: Position

record SpawnPoint =
  spawn_id :: string
  spawn_type :: "string option"
  spawn_position :: Position
  spawn_roomId :: string

record DungeonLayout =
  rooms :: "GeneratedRoom list"
  connections :: "RoomConnection list"
  spawnPoints :: "SpawnPoint list"
  playerStart :: Position
  exits :: "Position list"

text \<open>Reading a property of \<open>undefined\<close> throws a \<open>TypeError\<close>.\<close>

datatype error = TypeError

definition roomTypes :: "string list" where
  "roomTypes = [''entrance'', ''hallway'', ''chamber'', ''treasure'', ''boss'']"

function entity_loop ::
  "nat \<Rightarrow> int \<Rightarrow> nat \<Rightarrow> int \<Rightarrow> int \<Rightarrow> int \<Rightarrow> int \<Rightarrow> PlacedEntity list \<Rightarrow> SeededRandom
   \<Rightarrow> PlacedEntity list \<times> SeededRandom" where
  "entity_loop e entityCount i x y w h ents s =
     (if int e < entityCount then
        (let (t, s1) = pick [''enemy'', ''chest'', ''trap'', ''decoration''] s;
             (dx, s2) = nextInt 1 (w - 2) s1;
             (dy, s3) = nextInt 1 (h - 2) s2
         in entity_loop (e + 1) entityCount i x y w h
              (ents @ [\<lparr>entity_id = ''entity-'' @ show_nat i @ ''-'' @ show_nat e,
                        entity_type = t,
                        entity_position = \<lparr>pos_x = x + dx, pos_y = y + dy\<rparr>\<rparr>]) s3)
      else (ents, s))"
  by pat_completeness auto
termination
  by (relation "measure (\<lambda>(e, entityCount, _). nat (entityCount - int e))") auto

declare entity_loop.simps [simp del]

text \<open>The body of the room loop: one room, and the generator after it.\<close>

definition make_room ::
  "nat \<Rightarrow> int \<Rightarrow> int \<Rightarrow> int \<Rightarrow> SeededRandom \<Rightarrow> GeneratedRoom \<times> SeededRandom" where
  "make_room i roomCount lastX lastY s =
     (let (w, s1) = nextInt 6 14 s;
          (h, s2) = nextInt 6 12 s1;
          (offsetX, s3) = nextInt (- 3) 8 s2;
          (offsetY, s4) = nextInt (- 3) 8 s3;
          x = lastX + offsetX;
          y = lastY + offsetY;
          (roomType, s5) =
            (if i = 0 then (Some ''entrance'', s4)
             else if int i = roomCount - 1 then (Some ''boss'', s4)
             else pick (take 3 (drop 1 roomTypes)) s4);
          (th, s6) = pick [''stone'', ''moss'', ''crystal'', ''lava''] s5;
          (ents, s7) =
            (if roomType \<noteq> Some ''entrance'' then
               (let (entityCount, s') = nextInt 0 4 s6
                in entity_loop 0 entityCount i x y w h [] s')
             else ([], s6))
      in (\<lparr>room_id = ''room-'' @ show_nat i,
           room_type = roomType,
           room_bounds = \<lparr>bounds_x = x, bounds_y = y, bounds_width = w, bounds_height = h\<rparr>,
           room_entities = ents,
           room_metadata = \<lparr>difficulty = js_div (of_nat i) (of_int roomCount), theme = th\<rparr>\<rparr>,
          s7))"

function room_loop ::
  "nat \<Rightarrow> int \<Rightarrow> int \<Rightarrow> int \<Rightarrow> GeneratedRoom list \<Rightarrow> SeededRandom
   \<Rightarrow> GeneratedRoom list \<times> SeededRandom" where
  "room_loop i roomCount lastX lastY rs s =
     (if int i < roomCount then
        (let (room, s') = make_room i roomCount lastX lastY s;
             b = room_bounds room
         in room_loop (i + 1) roomCount
              (bounds_x b + bounds_width b) (bounds_y b + bounds_height b div 2)
              (rs @ [room]) s')
      else (rs, s))"
  by pat_completeness auto
termination
  by (relation "measure (\<lambda>(i, roomCount, _). nat (roomCount - int i))") auto

declare room_loop.simps [simp del]

text \<open>The connection pushed by the sequential loop, and the one pushed by the branching
  loop.\<close>

definition door_link :: "GeneratedRoom \<Rightarrow> GeneratedRoom \<Rightarrow> RoomConnection" where
  "door_link fromRoom toRoom =
     \<lparr>fromRoomId = room_id fromRoom,
      toRoomId = room_id toRoom,
      fromDoor =
        \<lparr>pos_x = bounds_x (room_bounds fromRoom) + bounds_width (room_bounds fromRoom),
         pos_y = bounds_y (room_bounds fromRoom) + bounds_height (room_bounds fromRoom) div 2\<rparr>,
      toDoor =
        \<lparr>pos_x = bounds_x (room_bounds toRoom),
         pos_y = bounds_y (room_bounds toRoom) + bounds_height (room_bounds toRoom) div 2\<rparr>\<rparr>"

definition branch_link :: "GeneratedRoom \<Rightarrow> GeneratedRoom \<Rightarrow> RoomConnection" where
  "branch_link fromRoom toRoom =
     \<lparr>fromRoomId = room_id fromRoom,
      toRoomId = room_id toRoom,
      fromDoor =
        \<lparr>pos_x = bounds_x (room_bounds fromRoom) + bounds_width (room_bounds fromRoom) div 2,
         pos_y = bounds_y (room_bounds fromRoom) + bounds_height (room_bounds fromRoom)\<rparr>,
      toDoor =
        \<lparr>pos_x = bounds_x (room_bounds toRoom) + bounds_width (room_bounds toRoom) div 2,
         pos_y = bounds_y (room_bounds toRoom)\<rparr>\<rparr>"

function connect_loop :: "nat \<Rightarrow> GeneratedRoom list \<Rightarrow> RoomConnection list \<Rightarrow> RoomConnection list"
  where
  "connect_loop i rs conns =
     (if int i < int (length rs) - 1 then
        (let fromRoom = rs ! i; toRoom = rs ! (i + 1)
         in connect_loop (i + 1) rs (conns @ [door_link fromRoom toRoom]))
      else conns)"
  by pat_completeness auto
termination
  by (relation "measure (\<lambda>(i, rs, _). length rs - i)") auto

declare connect_loop.simps [simp del]

function branch_loop ::
  "nat \<Rightarrow> int \<Rightarrow> GeneratedRoom list \<Rightarrow> RoomConnection list \<Rightarrow> SeededRandom
   \<Rightarrow> error + RoomConnection list \<times> SeededRandom" where
  "branch_loop i branchCount rs conns s =
     (if int i < branchCount then
        (let (fromIdx, s1) = nextInt 0 (int (length rs) - 3) s;
             (toIdx, s2) = nextInt (fromIdx + 2) (int (length rs) - 1) s1
         in case nth_opt rs fromIdx of
              None \<Rightarrow> Inl TypeError
            | Some fromRoom \<Rightarrow>
                (case nth_opt rs toIdx of
                   None \<Rightarrow> Inl TypeError
                 | Some toRoom \<Rightarrow>
                     branch_loop (i + 1) branchCount rs
                       (conns @ [branch_link fromRoom toRoom]) s2))
      else Inr (conns, s))"
  by pat_completeness auto
termination
  by (relation "measure (\<lambda>(i, branchCount, _). nat (branchCount - int i))") auto

declare branch_loop.simps [simp del]

function spawn_loop ::
  "nat \<Rightarrow> int \<Rightarrow> GeneratedRoom list \<Rightarrow> SpawnPoint list \<Rightarrow> SeededRandom
   \<Rightarrow> error + SpawnPoint list \<times> SeededRandom" where
  "spawn_loop i spawnCount rs sps s =
     (if int i < spawnCount then
        (let (r, s1) = pick (drop 1 rs) s
         in case r of
              None \<Rightarrow> Inl TypeError
            | Some room \<Rightarrow>
                (let (t, s2) = pick [''enemy'', ''item'', ''npc''] s1;
                     (dx, s3) = nextInt 1 (bounds_width (room_bounds room) - 2) s2;
                     (dy, s4) = nextInt 1 (bounds_height (room_bounds room) - 2) s3
                 in spawn_loop (i + 1) spawnCount rs
                      (sps @
                       [\<lparr>spawn_id = ''spawn-'' @ show_nat i,
                         spawn_type = t,
                         spawn_position =
                           \<lparr>pos_x = bounds_x (room_bounds room) + dx,
                            pos_y = bounds_y (room_bounds room) + dy\<rparr>,
                         spawn_roomId = room_id room\<rparr>]) s4))
      else Inr (sps, s))"
  by pat_completeness auto
termination
  by (relation "measure (\<lambda>(i, spawnCount, _). nat (spawnCount - int i))") auto

declare spawn_loop.simps [simp del]

definition room_centre :: "GeneratedRoom \<Rightarrow> Position" where
  "room_centre r =
     \<lparr>pos_x = bounds_x (room_bounds r) + bounds_width (room_bounds r) div 2,
      pos_y = bounds_y (room_bounds r) + bounds_height (room_bounds r) div 2\<rparr>"

definition generateDungeon :: "number \<Rightarrow> error + DungeonLayout" where
  "generateDungeon seed0 =
     (let (roomCount, s1) = nextInt 5 12 seed0;
          (rs, s2) = room_loop 0 roomCount 0 0 [] s1;
          conns = connect_loop 0 rs [];
          (branchCount, s3) = nextInt 0 (roomCount div 3) s2
      in case branch_loop 0 branchCount rs conns s3 of
           Inl err \<Rightarrow> Inl err
         | Inr (conns', s4) \<Rightarrow>
             (let (spawnCount, s5) = nextInt 3 8 s4
              in case spawn_loop 0 spawnCount rs [] s5 of
                   Inl err \<Rightarrow> Inl err
                 | Inr (sps, s6) \<Rightarrow>
                     (case nth_opt rs 0 of
                        None \<Rightarrow> Inl TypeError
                      | Some startRoom \<Rightarrow>
                          (case nth_opt rs (int (length rs) - 1) of
                             None \<Rightarrow> Inl TypeError
                           | Some exitRoom \<Rightarrow>
                               Inr \<lparr>rooms = rs,
                                    connections = conns',
                                    spawnPoints = sps,
                                    playerStart = room_centre startRoom,
                                    exits = [room_centre exitRoom]\<rparr>))))"

section \<open>The commands of the mock backend\<close>

record ('p, 'g) GenerationRequest =
  generatorId :: string
  seed :: number
  parameters :: "'p option"
  generator :: "'g option"

record ConstraintResult =
  constraintId :: string
  passed :: bool
  message :: "string option"

record GenerationMetadata =
  nodeExecutions :: int
  retryCount :: int

record GenerationResult =
  res_seed :: number
  timestamp :: int
  success :: bool
  data :: "DungeonLayout option"
  constraintResults :: "ConstraintResult list"
  metadata :: GenerationMetadata
  errors :: "string list"
  durationMs :: int

text \<open>What one call of \<open>generate_once\<close> reads from outside the program: the two readings of
  \<open>performance.now()\<close>, the value of \<open>Math.random()\<close> that sets the simulated delay, and
  \<open>Date.now()\<close>.\<close>

record gen_env =
  now_start :: rat
  random_delay :: rat
  now_end :: rat
  date_now :: int

definition generate_once :: "gen_env \<Rightarrow> ('p, 'g) GenerationRequest \<Rightarrow> error + GenerationResult"
  where
  "generate_once env request =
     (case generateDungeon (seed request) of
        Inl err \<Rightarrow> Inl err
      | Inr dungeon \<Rightarrow>
          Inr \<lparr>res_seed = seed request,
               timestamp = date_now env,
               success = True,
               data = Some dungeon,
               constraintResults =
                 [\<lparr>constraintId = ''min-rooms'', passed = (5 \<le> length (rooms dungeon)),
                   message = Some (''Room count: '' @ show_nat (length (rooms dungeon)))\<rparr>,
                  \<lparr>constraintId = ''connected'', passed = True,
                   message = Some ''All rooms connected''\<rparr>,
                  \<lparr>constraintId = ''has-exit'', passed = (0 < length (exits dungeon)),
                   message = Some ''Exit exists''\<rparr>],
               metadata = \<lparr>nodeExecutions = int (length (rooms dungeon)) * 3, retryCount = 0\<rparr>,
               errors = [],
               durationMs = Math_round (now_end env - now_start env)\<rparr>)"

record 'p SimulationConfig =
  sim_generatorId :: string
  runCount :: int
  seedStart :: "number option"
  sim_parameters :: "'p option"

record Percentiles =
  p5 :: "int option"
  p25 :: "int option"
  p75 :: "int option"
  p95 :: "int option"

record DistributionStats =
  stat_min :: "int option"
  stat_max :: "int option"
  mean :: number
  median :: "int option"
  stdDev :: "real option"
  percentiles :: Percentiles
  histogram :: "(rat \<times> nat) list"

record Statistics =
  stat_roomCount :: DistributionStats
  stat_pathLength :: DistributionStats
  stat_enemyCount :: DistributionStats
  stat_itemCount :: DistributionStats

record 'p SimulationResults =
  config :: "'p SimulationConfig"
  runs :: int
  successRate :: number
  sim_durationMs :: int
  statistics :: Statistics
  sim_constraintResults :: "(string \<times> rat \<times> nat) list"
  warnings :: "string list"

text \<open>
  The statistics of a list of counts. The mean and the variance are taken exactly. The
  variance is a division by the number of values: \<open>NaN\<close> for no value at all, and then so
  is its square root (\<open>None\<close>). An index \<open>Math.floor(sorted.length * p)\<close> is the floor of
  the exact product: \<open>0.25\<close> and \<open>0.75\<close> are doubles; the double nearest \<open>0.05\<close> is above
  it and the double nearest \<open>0.95\<close> is below it, by less than \<open>2^-54\<close>, so the rounded
  product is on the same side of every integer as the exact one, and is that integer when
  the exact product is one.
\<close>

definition variance :: "int list \<Rightarrow> number" where
  "variance values =
     (case js_div (of_int (sum_list values)) (of_nat (length values)) of
        Num m \<Rightarrow>
          js_div (sum_list (map (\<lambda>v. (of_int v - m) ^ 2) values)) (of_nat (length values))
      | _ \<Rightarrow> NaN)"

definition calcStats :: "int list \<Rightarrow> DistributionStats" where
  "calcStats values =
     (let sorted = sort values;
          n = length sorted
      in \<lparr>stat_min = nth_opt sorted 0,
          stat_max = nth_opt sorted (int n - 1),
          mean = js_div (of_int (sum_list values)) (of_nat (length values)),
          median = nth_opt sorted (int n div 2),
          stdDev = (case variance values of Num v \<Rightarrow> Some (sqrt (of_rat v)) | _ \<Rightarrow> None),
          percentiles =
            \<lparr>p5 = nth_opt sorted \<lfloor>of_nat n * (5 / 100 :: rat)\<rfloor>,
             p25 = nth_opt sorted \<lfloor>of_nat n * (25 / 100 :: rat)\<rfloor>,
             p75 = nth_opt sorted \<lfloor>of_nat n * (75 / 100 :: rat)\<rfloor>,
             p95 = nth_opt sorted \<lfloor>of_nat n * (95 / 100 :: rat)\<rfloor>\<rparr>,
          histogram = []\<rparr>)"

text \<open>What a simulation reads from outside: its own two clock readings, and the
  environment of each of its calls of \<open>generate_once\<close>.\<close>

record sim_env =
  sim_now_start :: rat
  sim_now_end :: rat
  run_env :: "nat \<Rightarrow> gen_env"

text \<open>The seed of the first run, \<open>config.seedStart ?? 0\<close>.\<close>

definition first_seed :: "'p SimulationConfig \<Rightarrow> number" where
  "first_seed cfg = (case seedStart cfg of None \<Rightarrow> Num 0 | Some s \<Rightarrow> s)"

text \<open>One pass through the body of the loop of \<open>run_simulation\<close>: the \<open>i\<close>-th call of
  \<open>generate_once\<close>. The sum \<open>seedStart + i\<close> is a double addition.\<close>

definition sim_iteration :: "sim_env \<Rightarrow> 'p SimulationConfig \<Rightarrow> nat \<Rightarrow> error + GenerationResult"
  where
  "sim_iteration env cfg i =
     (let sd = js_plus (first_seed cfg) (of_nat i)
      in generate_once (run_env env i)
           (\<lparr>generatorId = sim_generatorId cfg, seed = sd,
             parameters = None, generator = None\<rparr> :: (unit, unit) GenerationRequest))"

function sim_loop ::
  "sim_env \<Rightarrow> 'p SimulationConfig \<Rightarrow> nat \<Rightarrow> GenerationResult list \<Rightarrow> error + GenerationResult list"
  where
  "sim_loop env cfg i results =
     (if int i < runCount cfg then
        (case sim_iteration env cfg i of
           Inl err \<Rightarrow> Inl err
         | Inr result \<Rightarrow> sim_loop env cfg (i + 1) (results @ [result]))
      else Inr results)"
  by pat_completeness auto
termination
  by (relation "measure (\<lambda>(env, cfg, i, results). nat (runCount cfg - int i))") auto

declare sim_loop.simps [simp del]

definition count_enemies :: "DungeonLayout \<Rightarrow> int" where
  "count_enemies d =
     sum_list (map (\<lambda>room. int (length (filter (\<lambda>e. entity_type e = Some ''enemy'')
                                           (room_entities room)))) (rooms d))"

text \<open>The rest of \<open>run_simulation\<close>, after the loop.\<close>

definition summarize ::
  "sim_env \<Rightarrow> 'p SimulationConfig \<Rightarrow> GenerationResult list \<Rightarrow> 'p SimulationResults" where
  "summarize env cfg results =
     (let roomCounts =
            map (\<lambda>r. case data r of None \<Rightarrow> 0 | Some d \<Rightarrow> int (length (rooms d))) results;
          pathLengths =
            map (\<lambda>r. case data r of None \<Rightarrow> 0 | Some d \<Rightarrow> int (length (connections d))) results;
          enemyCounts =
            map (\<lambda>r. case data r of None \<Rightarrow> 0 | Some d \<Rightarrow> count_enemies d) results
      in \<lparr>config = cfg,
          runs = runCount cfg,
          successRate =
            js_div (of_nat (length (filter success results))) (of_nat (length results)),
          sim_durationMs = Math_round (sim_now_end env - sim_now_start env),
          statistics =
            \<lparr>stat_roomCount = calcStats roomCounts,
             stat_pathLength = calcStats pathLengths,
             stat_enemyCount = calcStats enemyCounts,
             stat_itemCount = calcStats (map (\<lambda>_. 0) roomCounts)\<rparr>,
          sim_constraintResults = [(''min-rooms'', 1, 0), (''connected'', 1, 0)],
          warnings = []\<rparr>)"

definition run_simulation :: "sim_env \<Rightarrow> 'p SimulationConfig \<Rightarrow> error + 'p SimulationResults"
  where
  "run_simulation env cfg =
     (case sim_loop env cfg 0 [] of
        Inl err \<Rightarrow> Inl err
      | Inr results \<Rightarrow> Inr (summarize env cfg results))"

section \<open>Connectivity of a layout\<close>

text \<open>A room is reached from another along the connections, each followed from its
  \<open>fromRoomId\<close> to its \<open>toRoomId\<close>. A room is isolated when it is not reached from the
  first room, the one that \<open>playerStart\<close> is placed in.\<close>

definition links :: "DungeonLayout \<Rightarrow> (string \<times> string) set" where
  "links l = (\<lambda>c. (fromRoomId c, toRoomId c)) ` set (connections l)"

definition reachable :: "DungeonLayout \<Rightarrow> string \<Rightarrow> string \<Rightarrow> bool" where
  "reachable l a b \<longleftrightarrow> (a, b) \<in> (links l)\<^sup>*"


definition inside :: "Bounds \<Rightarrow> Position \<Rightarrow> bool" where
  "inside b p \<longleftrightarrow>
     bounds_x b \<le> pos_x p \<and> pos_x p < bounds_x b + bounds_width b \<and>
     bounds_y b \<le> pos_y p \<and> pos_y p < bounds_y b + bounds_height b"

text \<open>A room at least six cells wide and six cells high.\<close>

definition roomy :: "GeneratedRoom \<Rightarrow> bool" where
  "roomy r \<longleftrightarrow> 6 \<le> bounds_width (room_bounds r) \<and> 6 \<le> bounds_height (room_bounds r)"

text \<open>The internal states a generator passes through, from the seed it was made with.\<close>

inductive_set rng_states :: "number \<Rightarrow> number set" for seed0 :: number where
  initial: "seed0 \<in> rng_states seed0"
| step: "s \<in> rng_states seed0 \<Longrightarrow> snd (rng_next s) \<in> rng_states seed0"

section \<open>The generation store and the cancellation of a simulation\<close>

record 'p GenerationState =
  currentSeed :: number
  lastResult :: "GenerationResult option"
  isGenerating :: bool
  store_error :: "error option"
  simulationConfig :: "'p SimulationConfig option"
  simulationResults :: "'p SimulationResults option"
  simulationProgress :: int
  isSimulating :: bool

text \<open>The action \<open>runSimulation\<close> of the store, before and after its \<open>await\<close>.\<close>

definition runSimulation_begin :: "'p SimulationConfig \<Rightarrow> 'p GenerationState \<Rightarrow> 'p GenerationState"
  where
  "runSimulation_begin cfg st =
     st\<lparr>isSimulating := True, simulationConfig := Some cfg, simulationProgress := 0,
        simulationResults := None, store_error := None\<rparr>"

definition runSimulation_settle ::
  "error + 'p SimulationResults \<Rightarrow> 'p GenerationState \<Rightarrow> 'p GenerationState" where
  "runSimulation_settle outcome st =
     (case outcome of
        Inr results \<Rightarrow>
          st\<lparr>simulationResults := Some results, isSimulating := False,
             simulationProgress := 100\<rparr>
      | Inl err \<Rightarrow> st\<lparr>store_error := Some err, isSimulating := False\<rparr>)"

text \<open>A call of \<open>run_simulation\<close> that waits for one of its calls of \<open>generate_once\<close> is its
  loop counter and the results it has pushed. The command \<open>cancel_simulation\<close> of the mock
  backend has an empty body: the waiting call is as it was.\<close>

type_synonym pending = "nat \<times> GenerationResult list"

definition cancel_simulation :: "pending option \<Rightarrow> pending option" where
  "cancel_simulation waiting = waiting"

definition cancelSimulation :: "'p GenerationState \<Rightarrow> 'p GenerationState" where
  "cancelSimulation st = st\<lparr>isSimulating := False\<rparr>"

text \<open>The program runs on one thread: between the start of a simulation and its result, other
  code runs only while the simulation waits for the timer of a call of \<open>generate_once\<close>.
  The events are the end of such a wait, and a cancellation by the user.\<close>

datatype event = Resolve | Cancel

record 'p app =
  store :: "'p GenerationState"
  backend :: "pending option"

definition start_simulation :: "sim_env \<Rightarrow> 'p SimulationConfig \<Rightarrow> 'p GenerationState \<Rightarrow> 'p app"
  where
  "start_simulation env cfg st =
     (if 0 < runCount cfg then
        \<lparr>store = runSimulation_begin cfg st, backend = Some (0, [])\<rparr>
      else
        \<lparr>store = runSimulation_settle (Inr (summarize env cfg [])) (runSimulation_begin cfg st),
         backend = None\<rparr>)"

fun app_step :: "sim_env \<Rightarrow> 'p SimulationConfig \<Rightarrow> 'p app \<Rightarrow> event \<Rightarrow> 'p app" where
  "app_step env cfg a Cancel =
     \<lparr>store = cancelSimulation (store a), backend = cancel_simulation (backend a)\<rparr>"
| "app_step env cfg a Resolve =
     (case backend a of
        None \<Rightarrow> a
      | Some (i, results) \<Rightarrow>
          (case sim_iteration env cfg i of
             Inl err \<Rightarrow> \<lparr>store = runSimulation_settle (Inl err) (store a), backend = None\<rparr>
           | Inr result \<Rightarrow>
               if int (i + 1) < runCount cfg then
                 \<lparr>store = store a, backend = Some (i + 1, results @ [result])\<rparr>
               else
                 \<lparr>store = runSimulation_settle
                            (Inr (summarize env cfg (results @ [result]))) (store a),
                  backend = None\<rparr>))"

definition run_events :: "sim_env \<Rightarrow> 'p SimulationConfig \<Rightarrow> event list \<Rightarrow> 'p app \<Rightarrow> 'p app"
  where
  "run_events env cfg evs a = foldl (app_step env cfg) a evs"

text \<open>An example: a hundred runs from the seed 0, started from an idle store.\<close>

definition clock0 :: sim_env where
  "clock0 = \<lparr>sim_now_start = 0, sim_now_end = 30000,
             run_env = (\<lambda>i. \<lparr>now_start = 0, random_delay = 1 / 2, now_end = 250,
                              date_now = 1000\<rparr>)\<rparr>"

definition hundred_runs :: "unit SimulationConfig" where
  "hundred_runs = \<lparr>sim_generatorId = ''caves'', runCount = 100, seedStart = Some (Num 0),
                    sim_parameters = None\<rparr>"

text \<open>Another: three runs from the seed \<open>2^53\<close>.\<close>

definition runs_from_2_53 :: "unit SimulationConfig" where
  "runs_from_2_53 = \<lparr>sim_generatorId = ''caves'', runCount = 3,
                      seedStart = Some (Num 9007199254740992), sim_parameters = None\<rparr>"

definition idle_store :: "unit GenerationState" where
  "idle_store = \<lparr>currentSeed = Num 42, lastResult = None, isGenerating = False,
                  store_error = None, simulationConfig = None,
                  simulationResults = None, simulationProgress = 0,
                  isSimulating = False\<rparr>"

section \<open>The editor of branch weights\<close>

text \<open>
  The weights are numbers of any kind, and the editor adds, multiplies and divides them, so
  here every operation is the double operation: the exact result rounded to the nearest
  double (\<open>fl\<close>: ties to even, 53 significant bits down to the last place \<open>2^-1074\<close> of the
  subnormal numbers, an infinity from \<open>2^1024\<close> on), with the results for \<open>NaN\<close>, the
  infinities and a zero divisor written out. The sign of a zero is not kept: the only
  zero the editor divides by is a sum that starts from \<open>+0\<close>, which is never \<open>-0\<close>.
\<close>

definition fl :: "rat \<Rightarrow> number" where
  "fl x =
     (if x = 0 then Num 0
      else
        (let e = max (expo x) (- 1074);
             y = of_int (round_even (x / 2 powi e)) * 2 powi e
         in if 2 ^ 1024 \<le> \<bar>y\<bar> then (if 0 < x then Infinity else NegInfinity) else Num y))"

fun num_plus :: "number \<Rightarrow> number \<Rightarrow> number" where
  "num_plus (Num a) (Num b) = fl (a + b)"
| "num_plus NaN _ = NaN"
| "num_plus _ NaN = NaN"
| "num_plus Infinity NegInfinity = NaN"
| "num_plus NegInfinity Infinity = NaN"
| "num_plus Infinity _ = Infinity"
| "num_plus _ Infinity = Infinity"
| "num_plus NegInfinity _ = NegInfinity"
| "num_plus _ NegInfinity = NegInfinity"

fun num_minus :: "number \<Rightarrow> number \<Rightarrow> number" where
  "num_minus (Num a) (Num b) = fl (a - b)"
| "num_minus NaN _ = NaN"
| "num_minus _ NaN = NaN"
| "num_minus Infinity Infinity = NaN"
| "num_minus NegInfinity NegInfinity = NaN"
| "num_minus Infinity _ = Infinity"
| "num_minus _ Infinity = NegInfinity"
| "num_minus NegInfinity _ = NegInfinity"
| "num_minus _ NegInfinity = Infinity"

fun num_times :: "number \<Rightarrow> number \<Rightarrow> number" where
  "num_times (Num a) (Num b) = fl (a * b)"
| "num_times NaN _ = NaN"
| "num_times _ NaN = NaN"
| "num_times (Num a) Infinity = (if a = 0 then NaN else if 0 < a then Infinity else NegInfinity)"
| "num_times (Num a) NegInfinity = (if a = 0 then NaN else if 0 < a then NegInfinity else Infinity)"
| "num_times Infinity (Num b) = (if b = 0 then NaN else if 0 < b then Infinity else NegInfinity)"
| "num_times NegInfinity (Num b) = (if b = 0 then NaN else if 0 < b then NegInfinity else Infinity)"
| "num_times Infinity Infinity = Infinity"
| "num_times Infinity NegInfinity = NegInfinity"
| "num_times NegInfinity Infinity = NegInfinity"
| "num_times NegInfinity NegInfinity = Infinity"

fun num_div :: "number \<Rightarrow> number \<Rightarrow> number" where
  "num_div (Num a) (Num b) =
     (if b = 0 then (if a = 0 then NaN else if 0 < a then Infinity else NegInfinity)
      else fl (a / b))"
| "num_div NaN _ = NaN"
| "num_div _ NaN = NaN"
| "num_div (Num a) Infinity = Num 0"
| "num_div (Num a) NegInfinity = Num 0"
| "num_div Infinity (Num b) = (if 0 \<le> b then Infinity else NegInfinity)"
| "num_div NegInfinity (Num b) = (if 0 \<le> b then NegInfinity else Infinity)"
| "num_div Infinity Infinity = NaN"
| "num_div Infinity NegInfinity = NaN"
| "num_div NegInfinity Infinity = NaN"
| "num_div NegInfinity NegInfinity = NaN"

text \<open>Each operation is given with the vector it passes to \<open>onChange\<close>.\<close>

definition addPath :: "number list \<Rightarrow> number list" where
  "addPath weights =
     (let newWeight = num_div (Num 1) (Num (of_nat (length weights) + 1));
          normalizedWeights = map (\<lambda>w. num_times w (num_minus (Num 1) newWeight)) weights
      in normalizedWeights @ [newWeight])"

text \<open>The weights without the one at a position, \<open>weights.filter((_, i) => i !== index)\<close>.\<close>

definition without :: "int \<Rightarrow> 'a list \<Rightarrow> 'a list" where
  "without index weights = map snd (filter (\<lambda>(i, w). int i \<noteq> index) (enumerate 0 weights))"

text \<open>\<open>removePath\<close> returns without calling \<open>onChange\<close> (\<open>None\<close>) when there are at most two
  paths. The sum is \<open>newWeights.reduce((a, b) => a + b, 0)\<close>.\<close>

definition removePath :: "int \<Rightarrow> number list \<Rightarrow> number list option" where
  "removePath index weights =
     (if length weights \<le> 2 then None
      else
        (let newWeights = without index weights;
             total = foldl num_plus (Num 0) newWeights
         in Some (map (\<lambda>w. num_div w total) newWeights)))"

text \<open>An assignment past the end of an array leaves empty slots before the new element
  (\<open>None\<close>); \<open>reduce\<close> and \<open>map\<close> skip them.\<close>

definition updateWeight :: "nat \<Rightarrow> number \<Rightarrow> number list \<Rightarrow> number option list" where
  "updateWeight index val weights =
     (let newWeights =
            (if index < length weights
             then (map Some weights)[index := Some (num_div val (Num 100))]
             else map Some weights @ replicate (index - length weights) None
                  @ [Some (num_div val (Num 100))]);
          total = foldl num_plus (Num 0) (List.map_filter (\<lambda>w. w) newWeights)
      in map (map_option (\<lambda>w. num_div w total)) newWeights)"

text \<open>A vector of numbers sums to one within the tolerance \<open>10^-9\<close>: all its elements are
  finite, and their exact sum is that near to 1.\<close>

fun finite_value :: "number \<Rightarrow> rat option" where
  "finite_value (Num q) = Some q"
| "finite_value _ = None"

definition sums_to_one :: "number list \<Rightarrow> bool" where
  "sums_to_one ws \<longleftrightarrow>
     (case those (map finite_value ws) of
        None \<Rightarrow> False
      | Some qs \<Rightarrow> \<bar>sum_list qs - 1\<bar> \<le> 1 / 10 ^ 9)"

text \<open>The doubles nearest to \<open>0.3\<close>, \<open>0.2\<close>, \<open>-0.8\<close>, \<open>0.7\<close>, \<open>0.1\<close> and \<open>1e308\<close>.\<close>

definition d_0_3 :: number where "d_0_3 = Num (5404319552844595 / 18014398509481984)"
definition d_0_2 :: number where "d_0_2 = Num (3602879701896397 / 18014398509481984)"
definition d_m0_8 :: number where "d_m0_8 = Num (- 3602879701896397 / 4503599627370496)"
definition d_0_7 :: number where "d_0_7 = Num (3152519739159347 / 4503599627370496)"
definition d_0_1 :: number where "d_0_1 = Num (3602879701896397 / 36028797018963968)"
definition d_1e308 :: number where "d_1e308 = Num (5010420900022432 * 2 ^ 971)"

section \<open>Rounding of integers\<close>

lemma round_even_of_int: "round_even (of_int k) = k"
  by (simp add: round_even_def)

lemma round_even_near: "\<bar>of_int (round_even y) - y\<bar> \<le> 1 / 2"
proof -
  have "of_int \<lfloor>y\<rfloor> \<le> y" "y < of_int \<lfloor>y\<rfloor> + 1" by linarith+
  then show ?thesis
    by (auto simp: round_even_def Let_def)
qed

lemma expo_of_int: "n \<noteq> 0 \<Longrightarrow> expo (of_int n) = bitlen \<bar>n\<bar> - 53"
proof -
  assume "n \<noteq> 0"
  then have "1 \<le> \<bar>n\<bar>" by simp
  then have "(1::rat) \<le> \<bar>of_int n\<bar>"
    by (metis of_int_abs of_int_1 of_int_le_iff)
  moreover have "\<lfloor>\<bar>of_int n :: rat\<bar>\<rfloor> = \<bar>n\<bar>"
    by (metis floor_of_int of_int_abs)
  ultimately show ?thesis by (simp add: expo_def)
qed

lemma rn_int_exact:
  assumes "\<bar>n\<bar> < 2 ^ 53"
  shows "rn (of_int n) = of_int n"
proof (cases "n = 0")
  case True
  then show ?thesis by (simp add: rn_def)
next
  case False
  define b where "b = bitlen \<bar>n\<bar>"
  have pos: "0 < \<bar>n\<bar>" using False by simp
  from bitlen_bounds [OF pos] have lo: "2 ^ nat (b - 1) \<le> \<bar>n\<bar>"
    by (simp add: b_def)
  have "b \<le> 53"
  proof (rule ccontr)
    assume "\<not> b \<le> 53"
    then have "53 \<le> nat (b - 1)" by simp
    then have "(2::int) ^ 53 \<le> 2 ^ nat (b - 1)"
      by (rule power_increasing) simp
    with lo assms show False by linarith
  qed
  define t where "t = nat (53 - b)"
  have e: "expo (of_int n) = - int t"
    using False \<open>b \<le> 53\<close> by (simp add: expo_of_int b_def t_def)
  have p: "(2::rat) powi (- int t) = inverse (2 ^ t)"
    by (simp add: power_int_minus)
  have "of_int n / ((2::rat) powi (- int t)) = of_int (n * 2 ^ t)"
    by (simp add: p divide_inverse)
  then have "round_even (of_int n / ((2::rat) powi (- int t))) = n * 2 ^ t"
    by (simp only: round_even_of_int)
  then show ?thesis
    using False by (simp add: rn_def e p)
qed

lemma rn_int_big:
  assumes "2 ^ 53 \<le> \<bar>n\<bar>"
  shows "\<exists>m. rn (of_int n) = of_int (2 * m) \<and> 2 ^ 53 * \<bar>2 * m - n\<bar> \<le> \<bar>n\<bar>"
proof -
  define b where "b = bitlen \<bar>n\<bar>"
  have "(0::int) < 2 ^ 53" by simp
  with assms have pos: "0 < \<bar>n\<bar>" by linarith
  then have nz: "n \<noteq> 0" by auto
  from bitlen_bounds [OF pos] have lo: "2 ^ nat (b - 1) \<le> \<bar>n\<bar>" and hi: "\<bar>n\<bar> < 2 ^ nat b"
    by (simp_all add: b_def)
  have "54 \<le> b"
  proof (rule ccontr)
    assume "\<not> 54 \<le> b"
    then have "nat b \<le> 53" by simp
    then have "(2::int) ^ nat b \<le> 2 ^ 53"
      by (rule power_increasing) simp
    with hi assms show False by linarith
  qed
  define t where "t = nat (b - 54)"
  have e: "expo (of_int n) = int (Suc t)"
    using nz \<open>54 \<le> b\<close> by (simp add: expo_of_int b_def t_def)
  have p: "(2::rat) powi int (Suc t) = 2 ^ Suc t"
    by (simp only: power_int_of_nat)
  define y :: rat where "y = of_int n / 2 ^ Suc t"
  define k where "k = round_even y"
  have r: "rn (of_int n) = of_int (2 * (k * 2 ^ t))"
  proof -
    have "rat_of_int n \<noteq> 0" using nz by simp
    then have "rn (of_int n)
        = of_int (round_even (of_int n / 2 powi expo (of_int n))) * 2 powi expo (of_int n)"
      by (simp add: rn_def)
    then have "rn (of_int n) = of_int k * 2 ^ Suc t"
      unfolding e p k_def y_def .
    then show ?thesis by simp
  qed
  have near: "\<bar>of_int k - y\<bar> \<le> 1 / 2"
    unfolding k_def by (rule round_even_near)
  have "of_int (2 * (k * 2 ^ t) - n) = (of_int k - y) * 2 ^ Suc t"
    by (simp add: y_def field_simps)
  then have "\<bar>of_int (2 * (k * 2 ^ t) - n) :: rat\<bar> = \<bar>of_int k - y\<bar> * 2 ^ Suc t"
    by (simp add: abs_mult)
  also have "\<dots> \<le> 1 / 2 * 2 ^ Suc t"
    using near by (rule mult_right_mono) simp
  also have "\<dots> = of_int (2 ^ t)" by simp
  finally have "\<bar>2 * (k * 2 ^ t) - n\<bar> \<le> 2 ^ t"
    by (metis of_int_abs of_int_le_iff)
  then have "2 ^ 53 * \<bar>2 * (k * 2 ^ t) - n\<bar> \<le> 2 ^ 53 * (2 ^ t :: int)"
    by (rule mult_left_mono) simp
  also have "\<dots> = 2 ^ (53 + t)" by (simp add: power_add)
  also have "53 + t = nat (b - 1)" using \<open>54 \<le> b\<close> by (simp add: t_def)
  finally show ?thesis using lo r by (intro exI [of _ "k * 2 ^ t"]) simp
qed

section \<open>The states of the generator\<close>

lemma and_mask31: "(k::int) AND 0x7fffffff = k mod 2 ^ 31"
proof -
  have "(0x7fffffff::int) = mask 31" by (simp add: mask_eq_exp_minus_1)
  then show ?thesis by (simp only: flip: take_bit_eq_mask) (simp add: take_bit_eq_mod)
qed

lemma state_of_int: "trunc32 (of_int j) AND 0x7fffffff = j mod 2 ^ 31"
proof -
  have "trunc32 (of_int j) = signed_take_bit 31 j"
    by (simp add: trunc32_def)
  then have "trunc32 (of_int j) AND 0x7fffffff = take_bit 31 (signed_take_bit 31 j)"
    by (simp only: and_mask31 take_bit_eq_mod)
  also have "\<dots> = take_bit 31 j"
    by (simp add: take_bit_signed_take_bit)
  finally show ?thesis by (simp only: take_bit_eq_mod)
qed

lemma state_range: "0 \<le> k AND (0x7fffffff::int)" "k AND (0x7fffffff::int) \<le> 0x7fffffff"
  by (simp_all add: and_mask31)

lemma even_state: "(2 * m) mod 2 ^ 31 \<noteq> (2147483647::int)"
proof
  assume h: "(2 * m) mod 2 ^ 31 = (2147483647::int)"
  have "even ((2 * m) mod (2 ^ 31 :: int))"
    by (rule dvd_mod) simp_all
  with h show False by simp
qed

text \<open>No integer state is followed by the state \<open>2^31 - 1\<close>. Where the product and the
  sum are exact, the state \<open>s\<close> would have to be \<open>230538014\<close> modulo \<open>2^31\<close> (multiply by
  \<open>1857678181\<close>, the inverse of the multiplier), which is out of the exact range. Where
  one of them is rounded, the result is even.\<close>

lemma exact_state:
  assumes b: "\<bar>s * 1103515245\<bar> < (2::int) ^ 53"
  shows "(s * 1103515245 + 12345) mod 2 ^ 31 \<noteq> (2147483647::int)"
proof
  assume h: "(s * 1103515245 + 12345) mod 2 ^ 31 = (2147483647::int)"
  define d where "d = (s * 1103515245 + 12345) div 2 ^ 31"
  have "2 ^ 31 * d + (s * 1103515245 + 12345) mod 2 ^ 31 = s * 1103515245 + 12345"
    unfolding d_def by (rule mult_div_mod_eq)
  with h have eq: "s * 1103515245 + 12345 = 2147483648 * d + 2147483647"
    by simp
  have bs: "- 8162278 \<le> s" "s \<le> 8162278" using b by simp_all
  define z where "z = d * 1857678181 - s * 954594553 + 1857667501"
  have "(s * 1103515245 + 12345) * 1857678181 = (2147483648 * d + 2147483647) * 1857678181"
    by (simp only: eq)
  then have "s = 2147483648 * z + 230538014"
    unfolding z_def by (simp add: algebra_simps)
  moreover have "z \<le> - 1 \<or> 0 \<le> z" by linarith
  ultimately show False using bs by linarith
qed


lemma big_state:
  assumes "2 ^ 53 \<le> \<bar>q\<bar>"
  shows "trunc32 (rn (of_int q)) AND 0x7fffffff \<noteq> 2147483647"
proof -
  from rn_int_big [OF assms] obtain m where "rn (of_int q) = of_int (2 * m)" by blast
  then show ?thesis by (simp only: state_of_int even_state not_False_eq_True)
qed

lemma rounded_product_big:
  fixes s m :: int
  assumes pb: "2 ^ 53 \<le> \<bar>s * 1103515245\<bar>"
    and near: "2 ^ 53 * \<bar>2 * m - s * 1103515245\<bar> \<le> \<bar>s * 1103515245\<bar>"
  shows "2 ^ 53 \<le> \<bar>2 * m + 12345\<bar>"
proof -
  define P where "P = \<bar>s * 1103515245\<bar>"
  define D where "D = \<bar>2 * m - s * 1103515245\<bar>"
  define Q where "Q = \<bar>2 * m + 12345\<bar>"
  have two53: "(2::int) ^ 53 = 9007199254740992" by simp
  have ap: "P = \<bar>s\<bar> * 1103515245" by (simp add: P_def abs_mult)
  have pb': "9007199254740992 \<le> P" using pb by (simp add: P_def)
  have "8162279 \<le> \<bar>s\<bar>"
  proof (rule ccontr)
    assume "\<not> 8162279 \<le> \<bar>s\<bar>"
    then have "\<bar>s\<bar> * 1103515245 \<le> 8162278 * 1103515245" by linarith
    with pb' ap show False by linarith
  qed
  then have lp: "9007199310443355 \<le> P" using ap by linarith
  have near': "9007199254740992 * D \<le> P" using near by (simp add: P_def D_def)
  have tri: "P \<le> Q + D + 12345" unfolding P_def Q_def D_def by linarith
  have "9007199254740992 \<le> Q" using near' lp tri by linarith
  then show ?thesis by (simp add: Q_def)
qed

lemma next_state_int:
  "trunc32 (rn (rn (of_int s * 1103515245) + 12345)) AND 0x7fffffff \<noteq> 2147483647"
proof -
  define p where "p = s * 1103515245"
  have pr: "of_int s * 1103515245 = (of_int p :: rat)" by (simp add: p_def)
  show ?thesis
  proof (cases "\<bar>p\<bar> < 2 ^ 53")
    case True
    then have "rn (of_int p) + 12345 = (of_int (p + 12345) :: rat)"
      by (simp add: rn_int_exact)
    then have eq: "rn (rn (of_int s * 1103515245) + 12345) = rn (of_int (p + 12345))"
      by (simp only: pr)
    show ?thesis
    proof (cases "\<bar>p + 12345\<bar> < 2 ^ 53")
      case True
      then have "rn (of_int (p + 12345)) = of_int (p + 12345)" by (rule rn_int_exact)
      then have "trunc32 (rn (rn (of_int s * 1103515245) + 12345)) AND 0x7fffffff
          = (s * 1103515245 + 12345) mod 2 ^ 31"
        by (simp only: eq state_of_int p_def)
      moreover have "(s * 1103515245 + 12345) mod 2 ^ 31 \<noteq> (2147483647::int)"
        using \<open>\<bar>p\<bar> < 2 ^ 53\<close> unfolding p_def by (rule exact_state)
      ultimately show ?thesis by (simp only: not_False_eq_True)
    next
      case False
      then have "2 ^ 53 \<le> \<bar>p + 12345\<bar>" by simp
      then show ?thesis unfolding eq by (rule big_state)
    qed
  next
    case False
    then have pb: "2 ^ 53 \<le> \<bar>p\<bar>" by simp
    from rn_int_big [OF pb] obtain m where
      m: "rn (of_int p) = of_int (2 * m)" and near: "2 ^ 53 * \<bar>2 * m - p\<bar> \<le> \<bar>p\<bar>" by blast
    have "rn (of_int p) + 12345 = (of_int (2 * m + 12345) :: rat)"
      by (simp add: m)
    then have eq: "rn (rn (of_int s * 1103515245) + 12345) = rn (of_int (2 * m + 12345))"
      by (simp only: pr)
    have "2 ^ 53 \<le> \<bar>2 * m + 12345\<bar>"
      using pb near unfolding p_def by (rule rounded_product_big)
    then show ?thesis unfolding eq by (rule big_state)
  qed
qed

lemma rng_next_state:
  obtains t where "rng_next s = (of_int t / 2147483647, Num (of_int t))"
    "0 \<le> t" "t \<le> 2147483647"
proof -
  define t where "t = ToInt32 (js_plus (js_times s 1103515245) 12345) AND 0x7fffffff"
  have "rng_next s = (of_int t / 2147483647, Num (of_int t))"
    by (simp add: rng_next_def t_def Let_def)
  moreover have "0 \<le> t" "t \<le> 2147483647"
    unfolding t_def using state_range by simp_all
  ultimately show ?thesis by (rule that)
qed

lemma rng_next_state_whole:
  assumes "whole s"
  obtains t where "rng_next s = (of_int t / 2147483647, Num (of_int t))"
    "0 \<le> t" "t < 2147483647"
proof -
  define t where "t = ToInt32 (js_plus (js_times s 1103515245) 12345) AND 0x7fffffff"
  have "rng_next s = (of_int t / 2147483647, Num (of_int t))"
    by (simp add: rng_next_def t_def Let_def)
  moreover have "0 \<le> t" "t \<le> 2147483647"
    unfolding t_def using state_range by simp_all
  moreover have "t \<noteq> 2147483647"
  proof (cases s)
    case (Num x)
    with assms obtain j where "x = of_int j" by (auto simp: whole_def elim: Ints_cases)
    then have "t = trunc32 (rn (rn (of_int j * 1103515245) + 12345)) AND 0x7fffffff"
      by (simp add: t_def Num js_times_def js_plus_def ToInt32_def)
    then show ?thesis by (simp only: next_state_int not_False_eq_True)
  next
    case NaN
    then show ?thesis by (simp add: t_def js_times_def js_plus_def ToInt32_def)
  next
    case Infinity
    then show ?thesis by (simp add: t_def js_times_def js_plus_def ToInt32_def)
  next
    case NegInfinity
    then show ?thesis by (simp add: t_def js_times_def js_plus_def ToInt32_def)
  qed
  ultimately show ?thesis using that by force
qed

lemma whole_Num_of_int [simp]: "whole (Num (of_int t))"
  by (simp add: whole_def)

lemma integral_whole: "integral a \<Longrightarrow> whole a"
  by (auto simp: integral_def)

lemma rng_next_integral: "integral (snd (rng_next s))"
  by (rule rng_next_state [of s]) (auto simp: integral_def)

lemma rng_next_whole: "whole (snd (rng_next s))"
  by (rule rng_next_state [of s]) simp

lemma floor_scaled:
  fixes t n :: int
  assumes "0 \<le> t" "t < 2147483647" "1 \<le> n"
  shows "0 \<le> \<lfloor>rat_of_int t / 2147483647 * of_int n\<rfloor>"
    and "\<lfloor>rat_of_int t / 2147483647 * of_int n\<rfloor> < n"
proof -
  have "rat_of_int t / 2147483647 * of_int n = of_int (t * n) / of_int 2147483647"
    by simp
  then have fl: "\<lfloor>rat_of_int t / 2147483647 * of_int n\<rfloor> = t * n div 2147483647"
    by (simp only: floor_divide_of_int_eq)
  have "0 \<le> t * n" using assms by simp
  then show "0 \<le> \<lfloor>rat_of_int t / 2147483647 * of_int n\<rfloor>"
    unfolding fl by (simp add: pos_imp_zdiv_nonneg_iff)
  have "t * n < 2147483647 * n" using assms by simp
  then have "t * n div 2147483647 < n"
    by (simp add: div_less_iff_less_mult mult.commute)
  then show "\<lfloor>rat_of_int t / 2147483647 * of_int n\<rfloor> < n" unfolding fl .
qed

lemma floor_scaled_any:
  fixes t n :: int
  assumes "0 \<le> t" "t \<le> 2147483647" "1 \<le> n"
  shows "0 \<le> \<lfloor>rat_of_int t / 2147483647 * of_int n\<rfloor>"
    and "\<lfloor>rat_of_int t / 2147483647 * of_int n\<rfloor> \<le> n"
proof -
  have "rat_of_int t / 2147483647 * of_int n = of_int (t * n) / of_int 2147483647"
    by simp
  then have fl: "\<lfloor>rat_of_int t / 2147483647 * of_int n\<rfloor> = t * n div 2147483647"
    by (simp only: floor_divide_of_int_eq)
  have "0 \<le> t * n" using assms by simp
  then show "0 \<le> \<lfloor>rat_of_int t / 2147483647 * of_int n\<rfloor>"
    unfolding fl by (simp add: pos_imp_zdiv_nonneg_iff)
  have "t * n \<le> 2147483647 * n" using assms by simp
  then have "t * n div 2147483647 \<le> 2147483647 * n div 2147483647"
    by (rule zdiv_mono1) simp
  then show "\<lfloor>rat_of_int t / 2147483647 * of_int n\<rfloor> \<le> n" unfolding fl by simp
qed

lemma nextInt_whole: "whole (snd (nextInt lo hi s))"
  by (rule rng_next_state [of s]) (simp add: nextInt_def)

lemma nextInt_range:
  assumes "whole s" "lo \<le> hi"
  shows "lo \<le> fst (nextInt lo hi s)" "fst (nextInt lo hi s) \<le> hi"
proof -
  from assms(1) obtain t where
    t: "rng_next s = (of_int t / 2147483647, Num (of_int t))" "0 \<le> t" "t < 2147483647"
    by (rule rng_next_state_whole)
  have n: "1 \<le> hi - lo + 1" using assms(2) by simp
  from floor_scaled [OF t(2,3) n]
  show "lo \<le> fst (nextInt lo hi s)" "fst (nextInt lo hi s) \<le> hi"
    by (simp_all add: nextInt_def t(1))
qed

lemma nextInt_range_any:
  assumes "lo \<le> hi"
  shows "lo \<le> fst (nextInt lo hi s)" "fst (nextInt lo hi s) \<le> hi + 1"
proof -
  obtain t where
    t: "rng_next s = (of_int t / 2147483647, Num (of_int t))" "0 \<le> t" "t \<le> 2147483647"
    by (rule rng_next_state)
  have n: "1 \<le> hi - lo + 1" using assms by simp
  from floor_scaled_any [OF t(2,3) n]
  show "lo \<le> fst (nextInt lo hi s)" "fst (nextInt lo hi s) \<le> hi + 1"
    by (simp_all add: nextInt_def t(1))
qed

lemma pick_whole: "whole (snd (pick xs s))"
  by (rule rng_next_state [of s]) (simp add: pick_def)

lemma pick_in_range:
  assumes "whole s" "xs \<noteq> []"
  shows "\<exists>k < length xs. fst (pick xs s) = Some (xs ! k)"
proof -
  from assms(1) obtain t where
    t: "rng_next s = (of_int t / 2147483647, Num (of_int t))" "0 \<le> t" "t < 2147483647"
    by (rule rng_next_state_whole)
  have n: "1 \<le> int (length xs)" using assms(2) by (cases xs) simp_all
  define k where "k = \<lfloor>rat_of_int t / 2147483647 * of_int (int (length xs))\<rfloor>"
  from floor_scaled [OF t(2,3) n] have k: "0 \<le> k" "k < int (length xs)"
    by (simp_all add: k_def)
  have "fst (pick xs s) = nth_opt xs k"
    by (simp add: pick_def t(1) k_def)
  with k have "fst (pick xs s) = Some (xs ! nat k)" "nat k < length xs"
    by (simp_all add: nth_opt_def)
  then show ?thesis by blast
qed

lemma rng_states_cases: "s \<in> rng_states seed0 \<Longrightarrow> s = seed0 \<or> integral s"
  by (induction rule: rng_states.induct) (simp_all add: rng_next_integral)

lemma rng_next_unit:
  assumes "whole s"
  shows "0 \<le> fst (rng_next s)" "fst (rng_next s) < 1"
proof -
  from assms obtain t where
    t: "rng_next s = (of_int t / 2147483647, Num (of_int t))" "0 \<le> t" "t < 2147483647"
    by (rule rng_next_state_whole)
  show "0 \<le> fst (rng_next s)" "fst (rng_next s) < 1"
    using t(2,3) by (simp_all add: t(1))
qed

text \<open>
  Claim C9. A seed is an integer; every seed the program makes is one (\<open>Math.floor\<close> of a
  random number in the store, \<open>parseInt(..) || 0\<close> in the toolbar, an integer start plus a
  counter in a simulation). In every state \<open>s\<close> that a generator made with such a seed passes
  through, \<open>next()\<close> returns a value in \<open>[0, 1)\<close>, \<open>nextInt(lo, hi)\<close> with \<open>lo \<le> hi\<close>
  returns an integer in \<open>[lo, hi]\<close>, and \<open>pick\<close> on a non-empty array returns one of its
  elements. Each method leaves the generator in the next state, an integer. (The seeds
  \<open>NaN\<close> and the infinities are covered as well.)
\<close>

theorem rng_in_range:
  assumes "whole seed0" and "s \<in> rng_states seed0"
  shows "0 \<le> fst (rng_next s) \<and> fst (rng_next s) < 1
       \<and> (lo \<le> hi \<longrightarrow> lo \<le> fst (nextInt lo hi s) \<and> fst (nextInt lo hi s) \<le> hi)
       \<and> (xs \<noteq> [] \<longrightarrow> (\<exists>k < length xs. fst (pick xs s) = Some (xs ! k)))
       \<and> snd (rng_next s) \<in> rng_states seed0
       \<and> integral (snd (rng_next s))
       \<and> snd (nextInt lo hi s) = snd (rng_next s)
       \<and> snd (pick xs s) = snd (rng_next s)"
proof -
  have s: "whole s"
    using rng_states_cases [OF assms(2)] assms(1) by (auto dest: integral_whole)
  have "snd (nextInt lo hi s) = snd (rng_next s)" "snd (pick xs s) = snd (rng_next s)"
    by (simp_all add: nextInt_def pick_def split: prod.splits)
  then show ?thesis
    using rng_next_unit [OF s] nextInt_range [OF s, of lo hi] pick_in_range [OF s, of xs]
      rng_states.step [OF assms(2)] rng_next_integral [of s]
    by simp
qed

theorem rng_in_range_witness:
  "whole (Num 42) \<and> snd (rng_next (Num 42)) \<in> rng_states (Num 42)
   \<and> 0 \<le> fst (rng_next (snd (rng_next (Num 42))))
   \<and> fst (rng_next (snd (rng_next (Num 42)))) < 1
   \<and> (5::int) \<le> 12
   \<and> 5 \<le> fst (nextInt 5 12 (snd (rng_next (Num 42))))
   \<and> fst (nextInt 5 12 (snd (rng_next (Num 42)))) \<le> 12
   \<and> [''enemy'', ''item'', ''npc''] \<noteq> []
   \<and> (\<exists>k < length [''enemy'', ''item'', ''npc''].
         fst (pick [''enemy'', ''item'', ''npc''] (snd (rng_next (Num 42))))
         = Some ([''enemy'', ''item'', ''npc''] ! k))"
proof -
  have w: "whole (Num 42)" by (simp add: whole_def)
  have r: "snd (rng_next (Num 42)) \<in> rng_states (Num 42)"
    by (rule rng_states.step) (rule rng_states.initial)
  from rng_in_range [OF w r, of 5 12 "[''enemy'', ''item'', ''npc'']"] w r
  show ?thesis by simp
qed

text \<open>
  The hypothesis on the seed is needed: a generator made with the fraction
  \<open>4382064951775013 / 2^51\<close>, a seed the program never makes, passes to the state
  \<open>2^31 - 1\<close>, from which the quotient by \<open>2^31 - 1\<close> is 1.
\<close>

lemma rng_next_of_a_fraction:
  "rng_next (Num (4382064951775013 / 2251799813685248)) = (1, Num 2147483647)"
  by code_simp

section \<open>The loops of the dungeon generator\<close>

lemma nextInt_wholeD: "nextInt lo hi s = (k, s') \<Longrightarrow> whole s'"
  using nextInt_whole [of lo hi s] by simp

lemma pick_wholeD: "pick xs s = (r, s') \<Longrightarrow> whole s'"
  using pick_whole [of xs s] by simp

lemma entity_loop_whole:
  "whole s \<Longrightarrow> whole (snd (entity_loop e entityCount i x y w h ents s))"
proof (induction e entityCount i x y w h ents s rule: entity_loop.induct)
  case (1 e entityCount i x y w h ents s)
  show ?case
  proof (cases "int e < entityCount")
    case True
    obtain t s1 where p1: "pick [''enemy'', ''chest'', ''trap'', ''decoration''] s = (t, s1)"
      by (cases "pick [''enemy'', ''chest'', ''trap'', ''decoration''] s")
    obtain dx s2 where p2: "nextInt 1 (w - 2) s1 = (dx, s2)"
      by (cases "nextInt 1 (w - 2) s1")
    obtain dy s3 where p3: "nextInt 1 (h - 2) s2 = (dy, s3)"
      by (cases "nextInt 1 (h - 2) s2")
    have "whole s3" using p3 by (rule nextInt_wholeD)
    with "1.IH" [OF True p1 [symmetric] refl p2 [symmetric] refl p3 [symmetric] refl]
    show ?thesis
      by (subst entity_loop.simps) (simp add: True p1 p2 p3)
  next
    case False
    then show ?thesis
      using "1.prems" by (subst entity_loop.simps) simp
  qed
qed

lemma make_room_whole: "whole (snd (make_room i roomCount lastX lastY s))"
proof -
  obtain w s1 where p1: "nextInt 6 14 s = (w, s1)" by (cases "nextInt 6 14 s")
  obtain h s2 where p2: "nextInt 6 12 s1 = (h, s2)" by (cases "nextInt 6 12 s1")
  obtain ox s3 where p3: "nextInt (- 3) 8 s2 = (ox, s3)" by (cases "nextInt (- 3) 8 s2")
  obtain oy s4 where p4: "nextInt (- 3) 8 s3 = (oy, s4)" by (cases "nextInt (- 3) 8 s3")
  define rt where "rt = (if i = 0 then (Some ''entrance'', s4)
             else if int i = roomCount - 1 then (Some ''boss'', s4)
             else pick (take 3 (drop 1 roomTypes)) s4)"
  obtain roomType s5 where p5: "rt = (roomType, s5)" by (cases rt)
  obtain th s6 where p6: "pick [''stone'', ''moss'', ''crystal'', ''lava''] s5 = (th, s6)"
    by (cases "pick [''stone'', ''moss'', ''crystal'', ''lava''] s5")
  obtain ec s7 where p7: "nextInt 0 4 s6 = (ec, s7)" by (cases "nextInt 0 4 s6")
  have s6: "whole s6" using p6 by (rule pick_wholeD)
  have s7: "whole s7" using p7 by (rule nextInt_wholeD)
  have "whole (snd (entity_loop 0 ec i (lastX + ox) (lastY + oy) w h [] s7))"
    using s7 by (rule entity_loop_whole)
  then show ?thesis
    using s6 p5
    by (auto simp add: make_room_def p1 p2 p3 p4 p6 p7 rt_def [symmetric] Let_def
          split: prod.splits if_splits)
qed

lemma room_loop_whole:
  "whole s \<Longrightarrow> whole (snd (room_loop i roomCount lastX lastY rs s))"
proof (induction i roomCount lastX lastY rs s rule: room_loop.induct)
  case (1 i roomCount lastX lastY rs s)
  show ?case
  proof (cases "int i < roomCount")
    case True
    obtain room s' where m: "make_room i roomCount lastX lastY s = (room, s')"
      by (cases "make_room i roomCount lastX lastY s")
    have "whole s'" using make_room_whole [of i roomCount lastX lastY s] m by simp
    with "1.IH" [OF True m [symmetric] refl refl]
    show ?thesis
      by (subst room_loop.simps) (simp add: True m Let_def)
  next
    case False
    then show ?thesis
      using "1.prems" by (subst room_loop.simps) simp
  qed
qed

lemma room_loop_length:
  "length (fst (room_loop i roomCount lastX lastY rs s)) = length rs + nat (roomCount - int i)"
proof (induction i roomCount lastX lastY rs s rule: room_loop.induct)
  case (1 i roomCount lastX lastY rs s)
  show ?case
  proof (cases "int i < roomCount")
    case True
    obtain room s' where m: "make_room i roomCount lastX lastY s = (room, s')"
      by (cases "make_room i roomCount lastX lastY s")
    from "1.IH" [OF True m [symmetric] refl refl] True
    show ?thesis
      by (subst room_loop.simps) (simp add: m Let_def nat_diff_distrib)
  next
    case False
    then show ?thesis
      by (subst room_loop.simps) simp
  qed
qed

lemma connect_loop_eq:
  "connect_loop i rs conns
   = conns @ map (\<lambda>j. door_link (rs ! j) (rs ! (j + 1))) [i ..< length rs - 1]"
proof (induction i rs conns rule: connect_loop.induct)
  case (1 i rs conns)
  show ?case
  proof (cases "int i < int (length rs) - 1")
    case True
    then have "i < length rs - 1" by simp
    then have "[i ..< length rs - 1] = i # [i + 1 ..< length rs - 1]"
      by (simp add: upt_conv_Cons)
    with "1.IH" [OF True refl refl] show ?thesis
      by (subst connect_loop.simps) (simp add: True Let_def)
  next
    case False
    then have "[i ..< length rs - 1] = []" by simp
    with False show ?thesis
      by (subst connect_loop.simps) simp
  qed
qed

lemma branch_loop_total:
  assumes "whole s" "3 \<le> length rs"
  shows "\<exists>extra s'. branch_loop i branchCount rs conns s = Inr (conns @ extra, s') \<and> whole s'"
  using assms
proof (induction i branchCount rs conns s rule: branch_loop.induct)
  case (1 i branchCount rs conns s)
  show ?case
  proof (cases "int i < branchCount")
    case True
    obtain fromIdx s1 where p1: "nextInt 0 (int (length rs) - 3) s = (fromIdx, s1)"
      by (cases "nextInt 0 (int (length rs) - 3) s")
    obtain toIdx s2 where p2: "nextInt (fromIdx + 2) (int (length rs) - 1) s1 = (toIdx, s2)"
      by (cases "nextInt (fromIdx + 2) (int (length rs) - 1) s1")
    have s1: "whole s1" using p1 by (rule nextInt_wholeD)
    have s2: "whole s2" using p2 by (rule nextInt_wholeD)
    have "0 \<le> int (length rs) - 3" using "1.prems" by simp
    from nextInt_range [OF "1.prems"(1) this] p1
    have f: "0 \<le> fromIdx" "fromIdx \<le> int (length rs) - 3" by simp_all
    then have "fromIdx + 2 \<le> int (length rs) - 1" by simp
    from nextInt_range [OF s1 this] p2
    have t: "fromIdx + 2 \<le> toIdx" "toIdx \<le> int (length rs) - 1" by simp_all
    have n1: "nth_opt rs fromIdx = Some (rs ! nat fromIdx)"
      using f by (simp add: nth_opt_def)
    have n2: "nth_opt rs toIdx = Some (rs ! nat toIdx)"
      using f t by (simp add: nth_opt_def)
    from "1.IH" [OF True p1 [symmetric] refl p2 [symmetric] refl n1 n2 s2 "1.prems"(2)]
    obtain extra s' where
      "branch_loop (i + 1) branchCount rs
         (conns @ [branch_link (rs ! nat fromIdx) (rs ! nat toIdx)]) s2
       = Inr ((conns @ [branch_link (rs ! nat fromIdx) (rs ! nat toIdx)]) @ extra, s')"
      and "whole s'"
      by blast
    then show ?thesis
      by (subst branch_loop.simps) (simp add: True p1 p2 n1 n2)
  next
    case False
    then show ?thesis
      using "1.prems" by (subst branch_loop.simps) simp
  qed
qed

lemma spawn_loop_total:
  assumes "whole s" "2 \<le> length rs"
  shows "\<exists>sps' s'. spawn_loop i spawnCount rs sps s = Inr (sps', s') \<and> whole s'"
  using assms
proof (induction i spawnCount rs sps s rule: spawn_loop.induct)
  case (1 i spawnCount rs sps s)
  show ?case
  proof (cases "int i < spawnCount")
    case True
    obtain r s1 where p1: "pick (drop 1 rs) s = (r, s1)" by (cases "pick (drop 1 rs) s")
    have "drop 1 rs \<noteq> []" using "1.prems"(2) by simp
    from pick_in_range [OF "1.prems"(1) this] p1
    obtain room where r: "r = Some room" by auto
    obtain t s2 where p2: "pick [''enemy'', ''item'', ''npc''] s1 = (t, s2)"
      by (cases "pick [''enemy'', ''item'', ''npc''] s1")
    obtain dx s3 where p3: "nextInt 1 (bounds_width (room_bounds room) - 2) s2 = (dx, s3)"
      by (cases "nextInt 1 (bounds_width (room_bounds room) - 2) s2")
    obtain dy s4 where p4: "nextInt 1 (bounds_height (room_bounds room) - 2) s3 = (dy, s4)"
      by (cases "nextInt 1 (bounds_height (room_bounds room) - 2) s3")
    have s4: "whole s4" using p4 by (rule nextInt_wholeD)
    from "1.IH" [OF True p1 [symmetric] refl r p2 [symmetric] refl p3 [symmetric] refl
        p4 [symmetric] refl s4 "1.prems"(2)]
    show ?thesis
      by (subst spawn_loop.simps)
        (simp only: True if_True p1 r p2 p3 p4 Let_def prod.case option.case)
  next
    case False
    then show ?thesis
      using "1.prems" by (subst spawn_loop.simps) simp
  qed
qed

lemma make_room_bounds:
  assumes "whole s"
  shows "6 \<le> bounds_width (room_bounds (fst (make_room i rc lastX lastY s)))"
    and "6 \<le> bounds_height (room_bounds (fst (make_room i rc lastX lastY s)))"
proof -
  obtain w s1 where p1: "nextInt 6 14 s = (w, s1)" by (cases "nextInt 6 14 s")
  obtain h s2 where p2: "nextInt 6 12 s1 = (h, s2)" by (cases "nextInt 6 12 s1")
  have s1: "whole s1" using p1 by (rule nextInt_wholeD)
  have w: "6 \<le> w" using nextInt_range(1) [OF assms, of 6 14] p1 by simp
  have h: "6 \<le> h" using nextInt_range(1) [OF s1, of 6 12] p2 by simp
  show "6 \<le> bounds_width (room_bounds (fst (make_room i rc lastX lastY s)))"
    using w by (simp add: make_room_def p1 p2 Let_def split: prod.splits)
  show "6 \<le> bounds_height (room_bounds (fst (make_room i rc lastX lastY s)))"
    using h by (simp add: make_room_def p1 p2 Let_def split: prod.splits)
qed

lemma room_loop_roomy:
  assumes "whole s" "list_all roomy rs"
  shows "list_all roomy (fst (room_loop i rc lastX lastY rs s))"
  using assms
proof (induction i rc lastX lastY rs s rule: room_loop.induct)
  case (1 i rc lastX lastY rs s)
  show ?case
  proof (cases "int i < rc")
    case True
    obtain room s' where m: "make_room i rc lastX lastY s = (room, s')"
      by (cases "make_room i rc lastX lastY s")
    have s': "whole s'" using make_room_whole [of i rc lastX lastY s] m by simp
    have "roomy room"
      using make_room_bounds [OF "1.prems"(1), of i rc lastX lastY] m by (simp add: roomy_def)
    then have "list_all roomy (rs @ [room])" using "1.prems"(2) by simp
    with "1.IH" [OF True m [symmetric] refl refl s'] show ?thesis
      by (subst room_loop.simps) (simp add: True m Let_def)
  next
    case False
    then show ?thesis
      using "1.prems" by (subst room_loop.simps) simp
  qed
qed

lemma centre_inside: "roomy r \<Longrightarrow> inside (room_bounds r) (room_centre r)"
  unfolding roomy_def inside_def room_centre_def by simp linarith

lemma generateDungeon_layout:
  obtains l extra where
    "generateDungeon sd = Inr l"
    "int (length (rooms l)) = fst (nextInt 5 12 sd)"
    "connections l
     = map (\<lambda>j. door_link (rooms l ! j) (rooms l ! (j + 1))) [0 ..< length (rooms l) - 1] @ extra"
    "playerStart l = room_centre (rooms l ! 0)"
    "exits l = [room_centre (rooms l ! (length (rooms l) - 1))]"
    "list_all roomy (rooms l)"
proof -
  obtain rc s1 where p1: "nextInt 5 12 sd = (rc, s1)" by (cases "nextInt 5 12 sd")
  have rc: "5 \<le> rc" using nextInt_range_any(1) [of 5 12 sd] p1 by simp
  have s1: "whole s1" using p1 by (rule nextInt_wholeD)
  obtain rs s2 where p2: "room_loop 0 rc 0 0 [] s1 = (rs, s2)"
    by (cases "room_loop 0 rc 0 0 [] s1")
  have len: "int (length rs) = rc"
    using room_loop_length [of 0 rc 0 0 "[]" s1] p2 rc by simp
  have s2: "whole s2" using room_loop_whole [OF s1, of 0 rc 0 0 "[]"] p2 by simp
  have ry: "list_all roomy rs" using room_loop_roomy [OF s1, of "[]" 0 rc 0 0] p2 by simp
  obtain bc s3 where p3: "nextInt 0 (rc div 3) s2 = (bc, s3)"
    by (cases "nextInt 0 (rc div 3) s2")
  have s3: "whole s3" using p3 by (rule nextInt_wholeD)
  have l3: "3 \<le> length rs" and l2: "2 \<le> length rs" using len rc by simp_all
  from branch_loop_total [OF s3 l3, of 0 bc "connect_loop 0 rs []"]
  obtain extra s4 where
    p4: "branch_loop 0 bc rs (connect_loop 0 rs []) s3 = Inr (connect_loop 0 rs [] @ extra, s4)"
    and s4: "whole s4" by blast
  obtain sc s5 where p5: "nextInt 3 8 s4 = (sc, s5)" by (cases "nextInt 3 8 s4")
  have s5: "whole s5" using p5 by (rule nextInt_wholeD)
  from spawn_loop_total [OF s5 l2, of 0 sc "[]"]
  obtain sps s6 where p6: "spawn_loop 0 sc rs [] s5 = Inr (sps, s6)" by blast
  have n0: "nth_opt rs 0 = Some (rs ! 0)" using l2 by (auto simp add: nth_opt_def)
  have n1: "nth_opt rs (int (length rs) - 1) = Some (rs ! (length rs - 1))"
    using l2 by (auto simp add: nth_opt_def nat_diff_distrib)
  define l where "l = \<lparr>rooms = rs, connections = connect_loop 0 rs [] @ extra,
        spawnPoints = sps, playerStart = room_centre (rs ! 0),
        exits = [room_centre (rs ! (length rs - 1))]\<rparr>"
  have "generateDungeon sd = Inr l"
    unfolding generateDungeon_def l_def
    by (simp only: p1 p2 p3 p4 p5 p6 n0 n1 Let_def prod.case sum.case option.case)
  moreover have "int (length (rooms l)) = fst (nextInt 5 12 sd)"
    by (simp add: l_def len p1)
  moreover have "connections l
     = map (\<lambda>j. door_link (rooms l ! j) (rooms l ! (j + 1))) [0 ..< length (rooms l) - 1] @ extra"
    by (simp add: l_def connect_loop_eq)
  moreover have "playerStart l = room_centre (rooms l ! 0)"
    "exits l = [room_centre (rooms l ! (length (rooms l) - 1))]"
    "list_all roomy (rooms l)"
    using ry by (simp_all add: l_def)
  ultimately show ?thesis by (rule that)
qed

lemma chain_reachable:
  assumes c: "connections l
     = map (\<lambda>j. door_link (rooms l ! j) (rooms l ! (j + 1))) [0 ..< length (rooms l) - 1] @ extra"
    and k: "k < length (rooms l)"
  shows "reachable l (room_id (rooms l ! 0)) (room_id (rooms l ! k))"
  using k
proof (induction k)
  case 0
  show ?case by (simp add: reachable_def)
next
  case (Suc k)
  then have k: "k < length (rooms l) - 1" by simp
  then have "door_link (rooms l ! k) (rooms l ! (k + 1)) \<in> set (connections l)"
    by (subst c) simp
  then have "(room_id (rooms l ! k), room_id (rooms l ! Suc k)) \<in> links l"
    unfolding links_def by (force simp: door_link_def)
  moreover have "reachable l (room_id (rooms l ! 0)) (room_id (rooms l ! k))"
    using Suc by simp
  ultimately show ?case
    unfolding reachable_def by (rule rtrancl_into_rtrancl [rotated])
qed

lemma chain_nth:
  assumes c: "connections l
     = map (\<lambda>j. door_link (rooms l ! j) (rooms l ! (j + 1))) [0 ..< length (rooms l) - 1] @ extra"
    and i: "i + 1 < length (rooms l)"
  shows "i < length (connections l)"
    and "connections l ! i = door_link (rooms l ! i) (rooms l ! (i + 1))"
proof -
  have i': "i < length (rooms l) - 1" using i by simp
  then show "i < length (connections l)" by (subst c) simp
  show "connections l ! i = door_link (rooms l ! i) (rooms l ! (i + 1))"
    using i' by (subst c) (simp add: nth_append)
qed

text \<open>
  Claim C10: for every seed (an integer, as in claim C9) \<open>generateDungeon\<close> returns a layout;
  it has between 5 and 12 rooms; for every \<open>i < rooms.length - 1\<close> the connection at index
  \<open>i\<close> leads from \<open>rooms[i]\<close> to \<open>rooms[i + 1]\<close>; so every room is reached from the first
  room, which contains \<open>playerStart\<close>, its centre.
\<close>

theorem generated_layout_rooms_and_chain:
  assumes "whole sd"
  shows "\<exists>l. generateDungeon sd = Inr l
      \<and> 5 \<le> length (rooms l) \<and> length (rooms l) \<le> 12
      \<and> (\<forall>i. i + 1 < length (rooms l) \<longrightarrow>
            i < length (connections l)
            \<and> connections l ! i = door_link (rooms l ! i) (rooms l ! (i + 1))
            \<and> fromRoomId (connections l ! i) = room_id (rooms l ! i)
            \<and> toRoomId (connections l ! i) = room_id (rooms l ! (i + 1)))
      \<and> (\<forall>k < length (rooms l). reachable l (room_id (rooms l ! 0)) (room_id (rooms l ! k)))
      \<and> playerStart l = room_centre (rooms l ! 0)
      \<and> inside (room_bounds (rooms l ! 0)) (playerStart l)"
proof -
  obtain l extra where l: "generateDungeon sd = Inr l"
    and n: "int (length (rooms l)) = fst (nextInt 5 12 sd)"
    and c: "connections l
     = map (\<lambda>j. door_link (rooms l ! j) (rooms l ! (j + 1))) [0 ..< length (rooms l) - 1] @ extra"
    and p: "playerStart l = room_centre (rooms l ! 0)"
    and ry: "list_all roomy (rooms l)"
    by (rule generateDungeon_layout)
  have lo: "5 \<le> length (rooms l)" and hi: "length (rooms l) \<le> 12"
    using nextInt_range [OF assms, of 5 12] n by simp_all
  have "0 < length (rooms l)" using lo by linarith
  with ry have "roomy (rooms l ! 0)" by (simp add: list_all_length)
  then have ins: "inside (room_bounds (rooms l ! 0)) (playerStart l)"
    unfolding p by (rule centre_inside)
  have ch: "i < length (connections l)
            \<and> connections l ! i = door_link (rooms l ! i) (rooms l ! (i + 1))
            \<and> fromRoomId (connections l ! i) = room_id (rooms l ! i)
            \<and> toRoomId (connections l ! i) = room_id (rooms l ! (i + 1))"
    if "i + 1 < length (rooms l)" for i
    using chain_nth [OF c that] by (simp add: door_link_def)
  have re: "reachable l (room_id (rooms l ! 0)) (room_id (rooms l ! k))"
    if "k < length (rooms l)" for k
    using c that by (rule chain_reachable)
  show ?thesis
    using l lo hi ins ch re p by blast
qed

theorem generated_layout_rooms_and_chain_witness:
  "whole (Num 42)
   \<and> (\<exists>l. generateDungeon (Num 42) = Inr l
      \<and> 5 \<le> length (rooms l) \<and> length (rooms l) \<le> 12
      \<and> 0 + 1 < length (rooms l)
      \<and> fromRoomId (connections l ! 0) = room_id (rooms l ! 0)
      \<and> toRoomId (connections l ! 0) = room_id (rooms l ! 1)
      \<and> 4 < length (rooms l)
      \<and> reachable l (room_id (rooms l ! 0)) (room_id (rooms l ! 4)))"
proof -
  have z: "whole (Num 42)" by (simp add: whole_def)
  from generated_layout_rooms_and_chain [OF z] obtain l where
    l: "generateDungeon (Num 42) = Inr l" "5 \<le> length (rooms l)" "length (rooms l) \<le> 12"
    and c: "\<forall>i. i + 1 < length (rooms l) \<longrightarrow>
            i < length (connections l)
            \<and> connections l ! i = door_link (rooms l ! i) (rooms l ! (i + 1))
            \<and> fromRoomId (connections l ! i) = room_id (rooms l ! i)
            \<and> toRoomId (connections l ! i) = room_id (rooms l ! (i + 1))"
    and r: "\<forall>k < length (rooms l). reachable l (room_id (rooms l ! 0)) (room_id (rooms l ! k))"
    by blast
  have n: "0 + 1 < length (rooms l)" "4 < length (rooms l)" using l(2) by simp_all
  from c n(1) have c0: "fromRoomId (connections l ! 0) = room_id (rooms l ! 0)"
    "toRoomId (connections l ! 0) = room_id (rooms l ! 1)" by auto
  from r n(2) have r4: "reachable l (room_id (rooms l ! 0)) (room_id (rooms l ! 4))" by blast
  from l z n c0 r4 show ?thesis by blast
qed

section \<open>Distribution statistics\<close>

lemma floor_numeral_div: "\<lfloor>numeral a / numeral b :: rat\<rfloor> = numeral a div numeral b"
  using floor_divide_of_int_eq [of "numeral a" "numeral b", where ?'a = rat] by simp

lemma percentile_index:
  assumes "0 < n" "k < 100"
  shows "nth_opt xs \<lfloor>of_nat n * (of_nat k / 100 :: rat)\<rfloor>
         = (if n * k div 100 < length xs then Some (xs ! (n * k div 100)) else None)"
proof -
  have "of_nat n * (of_nat k / 100 :: rat) = of_nat (n * k) / of_nat 100" by simp
  then have "\<lfloor>of_nat n * (of_nat k / 100 :: rat)\<rfloor> = int (n * k div 100)"
    by (simp only: floor_divide_of_nat_eq)
  then show ?thesis by (simp add: nth_opt_def)
qed

lemma percentile_in_range: "0 < n \<Longrightarrow> k < 100 \<Longrightarrow> n * k div 100 < (n::nat)"
  by (simp add: less_mult_imp_div_less)

text \<open>
  Claim C4, as the program has it: for a non-empty list of \<open>n\<close> values, each percentile
  \<open>p\<close> of \<open>0.05\<close>, \<open>0.25\<close>, \<open>0.75\<close>, \<open>0.95\<close> is the element of the ascending-sorted
  values at index \<open>floor (p * n)\<close>, an index inside the list.
\<close>

theorem percentiles_by_length:
  assumes "values \<noteq> []"
  shows "p5 (percentiles (calcStats values)) = Some (sort values ! (length values * 5 div 100))
       \<and> p25 (percentiles (calcStats values)) = Some (sort values ! (length values * 25 div 100))
       \<and> p75 (percentiles (calcStats values)) = Some (sort values ! (length values * 75 div 100))
       \<and> p95 (percentiles (calcStats values)) = Some (sort values ! (length values * 95 div 100))"
proof -
  have n: "0 < length values" using assms by simp
  have idx: "nth_opt (sort values) \<lfloor>of_nat (length values) * (of_nat k / 100 :: rat)\<rfloor>
      = Some (sort values ! (length values * k div 100))" if "k < 100" for k
    using percentile_index [OF n that, of "sort values"] percentile_in_range [OF n that]
    by simp
  show ?thesis
    using idx [of 5] idx [of 25] idx [of 75] idx [of 95]
    by (simp add: calcStats_def Let_def)
qed

theorem percentiles_by_length_witness:
  "[3, 1, 2, 5, 4] \<noteq> ([] :: int list)
   \<and> p95 (percentiles (calcStats [3, 1, 2, 5, 4])) = Some 5
   \<and> p5 (percentiles (calcStats [3, 1, 2, 5, 4])) = Some 1"
  using percentiles_by_length [of "[3, 1, 2, 5, 4]"] by simp

text \<open>
  The claim C4 as it is written, with the index \<open>floor (p * (n - 1))\<close>, fails for the values
  \<open>1, 2, 3, 4, 5\<close>: the program reports the 95th percentile \<open>5\<close>, the element at index
  \<open>floor (0.95 * 5) = 4\<close>, and the element at index \<open>floor (0.95 * 4) = 3\<close> is \<open>4\<close>.
\<close>

theorem percentile_index_counterexample:
  "\<not> (\<forall>values. values \<noteq> [] \<longrightarrow>
        p95 (percentiles (calcStats values))
        = nth_opt (sort values) \<lfloor>(95 / 100 :: rat) * (of_nat (length values) - 1)\<rfloor>)"
proof
  assume "\<forall>values. values \<noteq> [] \<longrightarrow>
        p95 (percentiles (calcStats values))
        = nth_opt (sort values) \<lfloor>(95 / 100 :: rat) * (of_nat (length values) - 1)\<rfloor>"
  then have "p95 (percentiles (calcStats [1, 2, 3, 4, 5]))
        = nth_opt (sort [1, 2, 3, 4, 5]) \<lfloor>(95 / 100 :: rat) * (of_nat (length [1, 2, 3, 4, 5 :: int]) - 1)\<rfloor>"
    by blast
  then show False
    by (simp add: calcStats_def nth_opt_def floor_numeral_div)
qed

text \<open>
  Claim C5: for the values \<open>1, 2, 3, 4, 5\<close> the statistics have mean 3, median 3, minimum
  1, maximum 5, and the 25th and 75th percentiles are the sorted values at the indices
  \<open>floor (0.25 * (5 - 1)) = 1\<close> and \<open>floor (0.75 * (5 - 1)) = 3\<close>, that is 2 and 4.
\<close>

theorem stats_of_one_to_five:
  "mean (calcStats [1, 2, 3, 4, 5]) = Num 3
   \<and> median (calcStats [1, 2, 3, 4, 5]) = Some 3
   \<and> stat_min (calcStats [1, 2, 3, 4, 5]) = Some 1
   \<and> stat_max (calcStats [1, 2, 3, 4, 5]) = Some 5
   \<and> p25 (percentiles (calcStats [1, 2, 3, 4, 5]))
       = nth_opt (sort [1, 2, 3, 4, 5]) \<lfloor>(25 / 100 :: rat) * (5 - 1)\<rfloor>
   \<and> p75 (percentiles (calcStats [1, 2, 3, 4, 5]))
       = nth_opt (sort [1, 2, 3, 4, 5]) \<lfloor>(75 / 100 :: rat) * (5 - 1)\<rfloor>
   \<and> p25 (percentiles (calcStats [1, 2, 3, 4, 5])) = Some 2
   \<and> p75 (percentiles (calcStats [1, 2, 3, 4, 5])) = Some 4"
  by (simp add: calcStats_def nth_opt_def js_div_def floor_numeral_div)

section \<open>Single runs and simulations\<close>

lemma generate_once_result:
  obtains l res where
    "generateDungeon (seed request) = Inr l"
    "generate_once env request = Inr res"
    "data res = Some l"
    "res_seed res = seed request"
    "success res"
    "constraintResults res =
       [\<lparr>constraintId = ''min-rooms'', passed = (5 \<le> length (rooms l)),
         message = Some (''Room count: '' @ show_nat (length (rooms l)))\<rparr>,
        \<lparr>constraintId = ''connected'', passed = True, message = Some ''All rooms connected''\<rparr>,
        \<lparr>constraintId = ''has-exit'', passed = (0 < length (exits l)),
         message = Some ''Exit exists''\<rparr>]"
proof -
  obtain l where l: "generateDungeon (seed request) = Inr l"
    by (rule generateDungeon_layout)
  define res where "res =
    \<lparr>res_seed = seed request, timestamp = date_now env, success = True, data = Some l,
     constraintResults =
       [\<lparr>constraintId = ''min-rooms'', passed = (5 \<le> length (rooms l)),
         message = Some (''Room count: '' @ show_nat (length (rooms l)))\<rparr>,
        \<lparr>constraintId = ''connected'', passed = True, message = Some ''All rooms connected''\<rparr>,
        \<lparr>constraintId = ''has-exit'', passed = (0 < length (exits l)),
         message = Some ''Exit exists''\<rparr>],
     metadata = \<lparr>nodeExecutions = int (length (rooms l)) * 3, retryCount = 0\<rparr>,
     errors = [],
     durationMs = Math_round (now_end env - now_start env)\<rparr>"
  have "generate_once env request = Inr res"
    by (simp add: generate_once_def l res_def)
  with l show ?thesis
    by (rule that) (simp_all add: res_def)
qed

text \<open>
  Claim C1: two calls of \<open>generate_once\<close> with the same request, whatever the clock, the
  date and the random delay of each call are, both return, and return the same layout: the
  same rooms with the same bounds and entities in the same order, the same connections,
  spawn points, \<open>playerStart\<close> and exits.
\<close>

theorem generate_once_deterministic:
  "\<exists>l r1 r2. generate_once env1 request = Inr r1 \<and> generate_once env2 request = Inr r2
     \<and> data r1 = Some l \<and> data r2 = Some l"
proof -
  obtain l1 r1 where a: "generateDungeon (seed request) = Inr l1"
    "generate_once env1 request = Inr r1" "data r1 = Some l1"
    by (rule generate_once_result)
  obtain l2 r2 where b: "generateDungeon (seed request) = Inr l2"
    "generate_once env2 request = Inr r2" "data r2 = Some l2"
    by (rule generate_once_result)
  from a(1) b(1) have "l1 = l2" by simp
  with a b show ?thesis by blast
qed

text \<open>
  Claim C2: two calls of \<open>generate_once\<close> whose requests have the same seed return the same
  layout, whatever the generator ids, the parameters and the generator graphs of the two
  requests are (they may even be of different types).
\<close>

theorem layout_depends_on_seed_only:
  fixes request1 :: "('p, 'g) GenerationRequest" and request2 :: "('q, 'h) GenerationRequest"
  assumes "seed request1 = seed request2"
  shows "\<exists>l r1 r2. generate_once env1 request1 = Inr r1 \<and> generate_once env2 request2 = Inr r2
     \<and> data r1 = Some l \<and> data r2 = Some l"
proof -
  obtain l1 r1 where a: "generateDungeon (seed request1) = Inr l1"
    "generate_once env1 request1 = Inr r1" "data r1 = Some l1"
    by (rule generate_once_result)
  obtain l2 r2 where b: "generateDungeon (seed request2) = Inr l2"
    "generate_once env2 request2 = Inr r2" "data r2 = Some l2"
    by (rule generate_once_result)
  from a(1) b(1) assms have "l1 = l2" by simp
  with a b show ?thesis by blast
qed

theorem layout_depends_on_seed_only_witness:
  "seed \<lparr>generatorId = ''caves'', seed = Num 42, parameters = Some [(''depth'', 3::nat)],
         generator = Some [''start'', ''room_chain'', ''output'']\<rparr>
   = seed \<lparr>generatorId = ''towers'', seed = Num 42, parameters = (None :: bool option),
           generator = Some (7::int)\<rparr>
   \<and> (\<exists>l r1 r2.
        generate_once \<lparr>now_start = 0, random_delay = 1 / 2, now_end = 250, date_now = 1000\<rparr>
          \<lparr>generatorId = ''caves'', seed = Num 42, parameters = Some [(''depth'', 3::nat)],
           generator = Some [''start'', ''room_chain'', ''output'']\<rparr> = Inr r1
        \<and> generate_once \<lparr>now_start = 5, random_delay = 0, now_end = 110, date_now = 2000\<rparr>
          \<lparr>generatorId = ''towers'', seed = Num 42, parameters = (None :: bool option),
           generator = Some (7::int)\<rparr> = Inr r2
        \<and> data r1 = Some l \<and> data r2 = Some l)"
  using layout_depends_on_seed_only
    [of "\<lparr>generatorId = ''caves'', seed = Num 42, parameters = Some [(''depth'', 3::nat)],
           generator = Some [''start'', ''room_chain'', ''output'']\<rparr>"
        "\<lparr>generatorId = ''towers'', seed = Num 42, parameters = (None :: bool option),
           generator = Some (7::int)\<rparr>"
        "\<lparr>now_start = 0, random_delay = 1 / 2, now_end = 250, date_now = 1000\<rparr>"
        "\<lparr>now_start = 5, random_delay = 0, now_end = 110, date_now = 2000\<rparr>"]
  by simp





lemma sim_iteration_result:
  obtains r where "sim_iteration env cfg i = Inr r"
    "res_seed r = js_plus (first_seed cfg) (of_nat i)" "success r"
proof -
  obtain l r where "generate_once (run_env env i)
           (\<lparr>generatorId = sim_generatorId cfg, seed = js_plus (first_seed cfg) (of_nat i),
             parameters = None, generator = None\<rparr> :: (unit, unit) GenerationRequest) = Inr r"
    and "res_seed r = seed (\<lparr>generatorId = sim_generatorId cfg,
             seed = js_plus (first_seed cfg) (of_nat i),
             parameters = None, generator = None\<rparr> :: (unit, unit) GenerationRequest)"
    and "success r"
    by (rule generate_once_result)
  then show ?thesis
    by (intro that [of r]) (simp_all add: sim_iteration_def first_seed_def Let_def)
qed

lemma sim_loop_runs:
  "\<exists>rs. sim_loop env cfg i acc = Inr (acc @ rs)
        \<and> map Inr rs = map (sim_iteration env cfg) [i ..< nat (runCount cfg)]"
proof (induction env cfg i acc rule: sim_loop.induct)
  case (1 env cfg i acc)
  show ?case
  proof (cases "int i < runCount cfg")
    case True
    obtain r where r: "sim_iteration env cfg i = Inr r" by (rule sim_iteration_result)
    from "1.IH" [OF True r] obtain rs where
      rs: "sim_loop env cfg (i + 1) (acc @ [r]) = Inr ((acc @ [r]) @ rs)"
      "map Inr rs = map (sim_iteration env cfg) [i + 1 ..< nat (runCount cfg)]"
      by blast
    have "i < nat (runCount cfg)" using True by simp
    then have "[i ..< nat (runCount cfg)] = i # [i + 1 ..< nat (runCount cfg)]"
      by (simp add: upt_conv_Cons)
    with rs r have "sim_loop env cfg i acc = Inr (acc @ (r # rs))
        \<and> map Inr (r # rs) = map (sim_iteration env cfg) [i ..< nat (runCount cfg)]"
      by (subst sim_loop.simps) (simp add: True)
    then show ?thesis by blast
  next
    case False
    then have "[i ..< nat (runCount cfg)] = []" by simp
    with False show ?thesis
      by (subst sim_loop.simps) simp
  qed
qed

lemma runs_seeds:
  assumes "map Inr rs = map (sim_iteration env cfg) [i ..< n]"
  shows "map res_seed rs = map (\<lambda>j. js_plus (first_seed cfg) (of_nat j)) [i ..< n]"
    and "list_all success rs"
proof -
  have len: "length rs = n - i" using arg_cong [OF assms, of length] by simp
  have nth: "Inr (rs ! k) = sim_iteration env cfg (i + k)" if "k < n - i" for k
    using arg_cong [OF assms, of "\<lambda>xs. xs ! k"] that len by simp
  have each: "res_seed (rs ! k) = js_plus (first_seed cfg) (of_nat (i + k)) \<and> success (rs ! k)"
    if "k < n - i" for k
  proof -
    obtain r where r: "sim_iteration env cfg (i + k) = Inr r"
      "res_seed r = js_plus (first_seed cfg) (of_nat (i + k))" "success r"
      by (rule sim_iteration_result)
    with nth [OF that] show ?thesis by simp
  qed
  show "map res_seed rs = map (\<lambda>j. js_plus (first_seed cfg) (of_nat j)) [i ..< n]"
    by (rule nth_equalityI) (simp_all add: len each)
  show "list_all success rs"
    by (simp add: list_all_length len each)
qed

lemma exact_seed_sum:
  assumes "\<bar>j\<bar> + n \<le> 2 ^ 53" "int i < n"
  shows "js_plus (Num (of_int j)) (of_nat i) = Num (of_int (j + int i))"
proof -
  have "\<bar>j + int i\<bar> < 2 ^ 53" using assms by linarith
  then have "rn (of_int (j + int i)) = of_int (j + int i)" by (rule rn_int_exact)
  then show ?thesis by (simp add: js_plus_def)
qed

text \<open>
  Claim C6, as the program has it: for a run count \<open>N \<ge> 0\<close>, \<open>run_simulation\<close> returns
  after exactly \<open>N\<close> calls of \<open>generate_once\<close>, the \<open>i\<close>-th with the seed that the program's
  addition of numbers gives for \<open>seedStart + i\<close> (\<open>seedStart\<close> is 0 when absent); that is
  the exact sum when \<open>seedStart\<close> is an integer and \<open>\<bar>seedStart\<bar> + N \<le> 2^53\<close>. What
  \<open>run_simulation\<close> returns is computed from the results of these \<open>N\<close> calls: its
  \<open>successRate\<close> is the number of them with \<open>success = true\<close> divided by \<open>N\<close> (all of
  them have, so it is 1, and \<open>NaN\<close> for no run), its \<open>runs\<close> is \<open>N\<close>, and its statistics
  are those of their layouts.
\<close>

theorem simulation_runs_and_rate:
  assumes "0 \<le> runCount cfg"
  shows "\<exists>results res.
       run_simulation env cfg = Inr res
     \<and> int (length results) = runCount cfg
     \<and> (\<forall>i < length results.
          generate_once (run_env env i)
            (\<lparr>generatorId = sim_generatorId cfg, seed = js_plus (first_seed cfg) (of_nat i),
              parameters = None, generator = None\<rparr> :: (unit, unit) GenerationRequest)
          = Inr (results ! i))
     \<and> map res_seed results
         = map (\<lambda>i. js_plus (first_seed cfg) (of_nat i)) [0 ..< nat (runCount cfg)]
     \<and> (\<forall>j. first_seed cfg = Num (of_int j) \<and> \<bar>j\<bar> + runCount cfg \<le> 2 ^ 53 \<longrightarrow>
          map res_seed results
          = map (\<lambda>i. Num (of_int (j + int i))) [0 ..< nat (runCount cfg)])
     \<and> res = summarize env cfg results
     \<and> successRate res
         = js_div (of_nat (length (filter success results))) (of_int (runCount cfg))
     \<and> list_all success results
     \<and> successRate res = (if runCount cfg = 0 then NaN else Num 1)
     \<and> runs res = runCount cfg
     \<and> stat_roomCount (statistics res)
         = calcStats (map (\<lambda>r. case data r of None \<Rightarrow> 0 | Some d \<Rightarrow> int (length (rooms d)))
                        results)"
proof -
  from sim_loop_runs [of env cfg 0 "[]"] obtain results where
    l: "sim_loop env cfg 0 [] = Inr results"
    and m: "map Inr results = map (sim_iteration env cfg) [0 ..< nat (runCount cfg)]"
    by auto
  have len': "length results = nat (runCount cfg)"
    using arg_cong [OF m, of length] by simp
  then have len: "int (length results) = runCount cfg"
    using assms by simp
  have each: "generate_once (run_env env i)
            (\<lparr>generatorId = sim_generatorId cfg, seed = js_plus (first_seed cfg) (of_nat i),
              parameters = None, generator = None\<rparr> :: (unit, unit) GenerationRequest)
          = Inr (results ! i)" if "i < length results" for i
    using arg_cong [OF m, of "\<lambda>xs. xs ! i"] that len'
    by (simp add: sim_iteration_def Let_def)
  have sd: "map res_seed results
      = map (\<lambda>i. js_plus (first_seed cfg) (of_nat i)) [0 ..< nat (runCount cfg)]"
    using m by (rule runs_seeds)
  have ex: "map res_seed results
      = map (\<lambda>i. Num (of_int (j + int i))) [0 ..< nat (runCount cfg)]"
    if "first_seed cfg = Num (of_int j)" "\<bar>j\<bar> + runCount cfg \<le> 2 ^ 53" for j
    unfolding sd that(1) by (rule map_cong [OF refl]) (simp add: exact_seed_sum [OF that(2)])
  define res where "res = summarize env cfg results"
  have r: "run_simulation env cfg = Inr res" by (simp add: run_simulation_def l res_def)
  have "rat_of_nat (length results) = of_int (runCount cfg)"
    using len by (metis of_int_of_nat_eq)
  then have rate: "successRate res
      = js_div (of_nat (length (filter success results))) (of_int (runCount cfg))"
    by (simp add: res_def summarize_def Let_def)
  have al: "list_all success results" using m by (rule runs_seeds)
  then have "filter success results = results" by (simp add: list_all_iff)
  then have one: "successRate res = (if runCount cfg = 0 then NaN else Num 1)"
    using len by (auto simp add: res_def summarize_def Let_def js_div_def)
  have rn: "runs res = runCount cfg" by (simp add: res_def summarize_def Let_def)
  have st: "stat_roomCount (statistics res)
         = calcStats (map (\<lambda>r. case data r of None \<Rightarrow> 0 | Some d \<Rightarrow> int (length (rooms d)))
                        results)"
    by (simp add: res_def summarize_def Let_def)
  from each have each': "\<forall>i < length results.
          generate_once (run_env env i)
            (\<lparr>generatorId = sim_generatorId cfg, seed = js_plus (first_seed cfg) (of_nat i),
              parameters = None, generator = None\<rparr> :: (unit, unit) GenerationRequest)
          = Inr (results ! i)" by blast
  from ex have ex': "\<forall>j. first_seed cfg = Num (of_int j) \<and> \<bar>j\<bar> + runCount cfg \<le> 2 ^ 53 \<longrightarrow>
          map res_seed results
          = map (\<lambda>i. Num (of_int (j + int i))) [0 ..< nat (runCount cfg)]" by blast
  from r len each' sd ex' res_def rate al one rn st show ?thesis
    by - (rule exI [of _ results], rule exI [of _ res], intro conjI; assumption)
qed

theorem simulation_runs_and_rate_witness:
  "0 \<le> runCount \<lparr>sim_generatorId = ''caves'', runCount = 3, seedStart = Some (Num 7),
                  sim_parameters = (None :: unit option)\<rparr>
   \<and> \<bar>7\<bar> + (3::int) \<le> 2 ^ 53
   \<and> (\<exists>(results :: GenerationResult list) res.
        run_simulation \<lparr>sim_now_start = 0, sim_now_end = 900,
            run_env = (\<lambda>i. \<lparr>now_start = 0, random_delay = 1 / 2, now_end = 250,
                             date_now = 1000\<rparr>)\<rparr>
          \<lparr>sim_generatorId = ''caves'', runCount = 3, seedStart = Some (Num 7),
           sim_parameters = (None :: unit option)\<rparr> = Inr res
        \<and> length results = 3
        \<and> generate_once \<lparr>now_start = 0, random_delay = 1 / 2, now_end = 250, date_now = 1000\<rparr>
            (\<lparr>generatorId = ''caves'', seed = Num 9, parameters = None, generator = None\<rparr>
             :: (unit, unit) GenerationRequest) = Inr (results ! 2)
        \<and> map res_seed results = [Num 7, Num 8, Num 9]
        \<and> successRate res = js_div (of_nat (length (filter success results))) 3
        \<and> runs res = 3)"
proof -
  define cfg :: "unit SimulationConfig" where
    "cfg = \<lparr>sim_generatorId = ''caves'', runCount = 3, seedStart = Some (Num 7), sim_parameters = None\<rparr>"
  define genv where
    "genv = \<lparr>now_start = 0, random_delay = 1 / 2, now_end = 250, date_now = 1000\<rparr>"
  define env where "env = \<lparr>sim_now_start = 0, sim_now_end = 900, run_env = (\<lambda>i::nat. genv)\<rparr>"
  have n: "0 \<le> runCount cfg" by (simp add: cfg_def)
  have b: "\<bar>7\<bar> + (3::int) \<le> 2 ^ 53" by simp
  have f: "first_seed cfg = Num (of_int 7)" "runCount cfg = 3" "sim_generatorId cfg = ''caves''"
    by (simp_all add: cfg_def first_seed_def)
  have u: "[0 ..< 3] = [0, 1, 2 :: nat]" by (simp add: eval_nat_numeral)
  from simulation_runs_and_rate [OF n, of env] obtain results res where
    h: "run_simulation env cfg = Inr res"
    "int (length results) = runCount cfg"
    "\<forall>i < length results.
          generate_once (run_env env i)
            (\<lparr>generatorId = sim_generatorId cfg, seed = js_plus (first_seed cfg) (of_nat i),
              parameters = None, generator = None\<rparr> :: (unit, unit) GenerationRequest)
          = Inr (results ! i)"
    "\<forall>j. first_seed cfg = Num (of_int j) \<and> \<bar>j\<bar> + runCount cfg \<le> 2 ^ 53 \<longrightarrow>
          map res_seed results
          = map (\<lambda>i. Num (of_int (j + int i))) [0 ..< nat (runCount cfg)]"
    "successRate res
         = js_div (of_nat (length (filter success results))) (of_int (runCount cfg))"
    "runs res = runCount cfg"
    apply (elim exE conjE)
    apply (rule that; assumption)
    done
  have len: "length results = 3" using h(2) by (simp add: f)
  have p: "js_plus (Num 7) 2 = Num 9"
    using exact_seed_sum [of 7 3 2] by simp
  have "generate_once genv
            (\<lparr>generatorId = ''caves'', seed = Num 9, parameters = None, generator = None\<rparr>
             :: (unit, unit) GenerationRequest) = Inr (results ! 2)"
    using h(3) [rule_format, of 2] len by (simp add: f env_def p)
  moreover have "map res_seed results = [Num 7, Num 8, Num 9]"
    using h(4) [rule_format, of 7] by (simp add: f u)
  moreover have "successRate res = js_div (of_nat (length (filter success results))) 3"
    using h(5) by (simp add: f)
  moreover have "runs res = 3" using h(6) by (simp add: f)
  ultimately have "run_simulation env cfg = Inr res \<and> length results = 3
      \<and> generate_once genv
            (\<lparr>generatorId = ''caves'', seed = Num 9, parameters = None, generator = None\<rparr>
             :: (unit, unit) GenerationRequest) = Inr (results ! 2)
      \<and> map res_seed results = [Num 7, Num 8, Num 9]
      \<and> successRate res = js_div (of_nat (length (filter success results))) 3
      \<and> runs res = 3"
    using h(1) len by simp
  then have "\<exists>(results :: GenerationResult list) res.
        run_simulation env cfg = Inr res \<and> length results = 3
      \<and> generate_once genv
            (\<lparr>generatorId = ''caves'', seed = Num 9, parameters = None, generator = None\<rparr>
             :: (unit, unit) GenerationRequest) = Inr (results ! 2)
      \<and> map res_seed results = [Num 7, Num 8, Num 9]
      \<and> successRate res = js_div (of_nat (length (filter success results))) 3
      \<and> runs res = 3"
    by - (rule exI, rule exI, assumption)
  with n b show ?thesis unfolding cfg_def env_def genv_def by simp
qed

text \<open>
  The claim C6 as it is written, with the seeds \<open>seedStart + i\<close> for every configuration,
  fails for three runs from the seed \<open>2^53\<close>: the sum \<open>2^53 + 1\<close> is not a number of the
  program and is rounded to \<open>2^53\<close>, so the seeds of the three runs are \<open>2^53\<close>, \<open>2^53\<close>
  and \<open>2^53 + 2\<close>.
\<close>

theorem seeds_from_2_53_counterexample:
  "map_sum id (map res_seed) (sim_loop clock0 runs_from_2_53 0 [])
     = Inr [Num 9007199254740992, Num 9007199254740992, Num 9007199254740994]
   \<and> map_sum id (map res_seed) (sim_loop clock0 runs_from_2_53 0 [])
     \<noteq> Inr [Num 9007199254740992, Num 9007199254740993, Num 9007199254740994]"
proof -
  from sim_loop_runs [of clock0 runs_from_2_53 0 "[]"] obtain results where
    l: "sim_loop clock0 runs_from_2_53 0 [] = Inr results"
    and m: "map Inr results
            = map (sim_iteration clock0 runs_from_2_53) [0 ..< nat (runCount runs_from_2_53)]"
    by auto
  have u: "[0 ..< nat (runCount runs_from_2_53)] = [0, 1, 2 :: nat]"
    by (simp add: runs_from_2_53_def eval_nat_numeral)
  have f: "first_seed runs_from_2_53 = Num 9007199254740992"
    by (simp add: runs_from_2_53_def first_seed_def)
  have p: "js_plus (Num 9007199254740992) 0 = Num 9007199254740992"
    "js_plus (Num 9007199254740992) 1 = Num 9007199254740992"
    "js_plus (Num 9007199254740992) 2 = Num 9007199254740994"
    by code_simp+
  have "map res_seed results
      = [Num 9007199254740992, Num 9007199254740992, Num 9007199254740994]"
    using runs_seeds(1) [OF m] by (simp add: u f p)
  with l show ?thesis by simp
qed

section \<open>Cancellation\<close>

lemma run_events_Cons:
  "run_events env cfg (e # evs) a = run_events env cfg evs (app_step env cfg a e)"
  by (simp add: run_events_def)

lemma settled_stays:
  assumes "backend a = None"
  shows "backend (run_events env cfg evs a) = None
       \<and> simulationResults (store (run_events env cfg evs a)) = simulationResults (store a)"
  using assms
proof (induction evs arbitrary: a)
  case Nil
  then show ?case by (simp add: run_events_def)
next
  case (Cons e evs)
  show ?case
  proof (cases e)
    case Resolve
    with Cons.prems have "app_step env cfg a e = a" by simp
    with Cons show ?thesis by (simp add: run_events_Cons)
  next
    case Cancel
    with Cons.prems have "backend (app_step env cfg a e) = None"
      "simulationResults (store (app_step env cfg a e)) = simulationResults (store a)"
      by (simp_all add: cancel_simulation_def cancelSimulation_def)
    with Cons.IH [of "app_step env cfg a e"] show ?thesis by (simp add: run_events_Cons)
  qed
qed

lemma pending_finishes:
  assumes "backend a = Some (i, acc)" "int i < runCount cfg"
    and "sim_loop env cfg i acc = Inr results"
    and "nat (runCount cfg) - i \<le> length (filter (\<lambda>e. e = Resolve) evs)"
  shows "simulationResults (store (run_events env cfg evs a)) = Some (summarize env cfg results)"
  using assms
proof (induction evs arbitrary: a i acc)
  case Nil
  then show ?case by simp
next
  case (Cons e evs)
  show ?case
  proof (cases e)
    case Cancel
    have "backend (app_step env cfg a e) = Some (i, acc)"
      using Cons.prems(1) Cancel by (simp add: cancel_simulation_def)
    moreover have "nat (runCount cfg) - i \<le> length (filter (\<lambda>e. e = Resolve) evs)"
      using Cons.prems(4) Cancel by simp
    ultimately show ?thesis
      using Cons.IH [of "app_step env cfg a e" i acc] Cons.prems(2,3)
      by (simp add: run_events_Cons)
  next
    case Resolve
    from Cons.prems(2,3) obtain r where
      r: "sim_iteration env cfg i = Inr r"
      and rest: "sim_loop env cfg (i + 1) (acc @ [r]) = Inr results"
      by (subst (asm) sim_loop.simps) (auto split: sum.splits)
    show ?thesis
    proof (cases "int (i + 1) < runCount cfg")
      case True
      have "backend (app_step env cfg a e) = Some (i + 1, acc @ [r])"
        using Cons.prems(1) Resolve r True by simp
      moreover have "nat (runCount cfg) - (i + 1) \<le> length (filter (\<lambda>e. e = Resolve) evs)"
        using Cons.prems(4) Resolve by simp
      ultimately show ?thesis
        using Cons.IH [of "app_step env cfg a e" "i + 1" "acc @ [r]"] True rest
        by (simp add: run_events_Cons)
    next
      case False
      then have "results = acc @ [r]"
        using rest by (subst (asm) sim_loop.simps) simp
      then have "backend (app_step env cfg a e) = None"
        "simulationResults (store (app_step env cfg a e)) = Some (summarize env cfg results)"
        using Cons.prems(1) Resolve r False by (simp_all add: runSimulation_settle_def)
      with settled_stays [of "app_step env cfg a e" env cfg evs] show ?thesis
        by (simp add: run_events_Cons)
    qed
  qed
qed

lemma simulation_settles:
  assumes "nat (runCount cfg) \<le> length (filter (\<lambda>e. e = Resolve) evs)"
  shows "\<exists>res. run_simulation env cfg = Inr res
       \<and> simulationResults (store (run_events env cfg evs (start_simulation env cfg st)))
           = Some res
       \<and> runs res = runCount cfg"
proof -
  from sim_loop_runs [of env cfg 0 "[]"] obtain results where
    l: "sim_loop env cfg 0 [] = Inr results" by auto
  define res where "res = summarize env cfg results"
  have r: "run_simulation env cfg = Inr res" by (simp add: run_simulation_def l res_def)
  have n: "runs res = runCount cfg" by (simp add: res_def summarize_def Let_def)
  have "simulationResults (store (run_events env cfg evs (start_simulation env cfg st))) = Some res"
  proof (cases "0 < runCount cfg")
    case True
    then have "backend (start_simulation env cfg st) = Some (0, [])"
      by (simp add: start_simulation_def)
    from pending_finishes [OF this _ l, of evs] True assms show ?thesis
      by (simp add: res_def)
  next
    case False
    then have "results = []"
      using l by (subst (asm) sim_loop.simps) simp
    with False have "backend (start_simulation env cfg st) = None"
      "simulationResults (store (start_simulation env cfg st)) = Some res"
      by (simp_all add: start_simulation_def runSimulation_settle_def res_def)
    with settled_stays [of "start_simulation env cfg st" env cfg evs] show ?thesis by simp
  qed
  with r n show ?thesis by blast
qed

lemma run_events_append:
  "run_events env cfg (xs @ ys) a = run_events env cfg ys (run_events env cfg xs a)"
  by (simp add: run_events_def)

lemma resolves_progress:
  assumes "backend a = Some (i, acc)" "int (i + k) < runCount cfg"
  shows "\<exists>rs. backend (run_events env cfg (replicate k Resolve) a) = Some (i + k, acc @ rs)
            \<and> length rs = k
            \<and> store (run_events env cfg (replicate k Resolve) a) = store a"
  using assms
proof (induction k arbitrary: a i acc)
  case 0
  then show ?case by (simp add: run_events_def)
next
  case (Suc k)
  obtain r where r: "sim_iteration env cfg i = Inr r" by (rule sim_iteration_result)
  have lt: "int (i + 1) < runCount cfg" using Suc.prems(2) by simp
  have b: "backend (app_step env cfg a Resolve) = Some (i + 1, acc @ [r])"
    and s: "store (app_step env cfg a Resolve) = store a"
    using Suc.prems(1) r lt by simp_all
  have "int (i + 1 + k) < runCount cfg" using Suc.prems(2) by simp
  from Suc.IH [OF b this] obtain rs where
    "backend (run_events env cfg (replicate k Resolve) (app_step env cfg a Resolve))
       = Some (i + 1 + k, (acc @ [r]) @ rs)"
    "length rs = k"
    "store (run_events env cfg (replicate k Resolve) (app_step env cfg a Resolve))
       = store (app_step env cfg a Resolve)"
    by blast
  then have "backend (run_events env cfg (replicate (Suc k) Resolve) a)
       = Some (i + Suc k, acc @ (r # rs))
       \<and> length (r # rs) = Suc k
       \<and> store (run_events env cfg (replicate (Suc k) Resolve) a) = store a"
    using s by (simp add: run_events_Cons)
  then show ?case by blast
qed

text \<open>
  Claim C7, as the program has it: \<open>cancel_simulation\<close> does nothing and the action
  \<open>cancelSimulation\<close> of the store only clears \<open>isSimulating\<close>. Whatever cancellations
  arrive while a simulation waits for its runs, once all its runs have ended the store
  holds the \<open>SimulationResults\<close> that \<open>run_simulation\<close> returns over all the scheduled runs,
  the same as with the cancellations left out.
\<close>

theorem cancellation_is_ignored:
  assumes "nat (runCount cfg) \<le> length (filter (\<lambda>e. e = Resolve) evs)"
  shows "\<exists>res. run_simulation env cfg = Inr res
       \<and> simulationResults (store (run_events env cfg evs (start_simulation env cfg st)))
           = Some res
       \<and> simulationResults
           (store (run_events env cfg (filter (\<lambda>e. e = Resolve) evs)
                     (start_simulation env cfg st)))
           = Some res
       \<and> runs res = runCount cfg"
proof -
  have "nat (runCount cfg)
      \<le> length (filter (\<lambda>e. e = Resolve) (filter (\<lambda>e. e = Resolve) evs))"
    using assms by simp
  from simulation_settles [OF assms, of env st] simulation_settles [OF this, of env st]
  show ?thesis by auto
qed

theorem cancellation_is_ignored_witness:
  "nat (runCount \<lparr>sim_generatorId = ''caves'', runCount = 3, seedStart = None,
                   sim_parameters = (None :: unit option)\<rparr>)
     \<le> length (filter (\<lambda>e. e = Resolve) [Resolve, Cancel, Resolve, Resolve])
   \<and> (\<exists>res.
        run_simulation \<lparr>sim_now_start = 0, sim_now_end = 900,
            run_env = (\<lambda>i. \<lparr>now_start = 0, random_delay = 1 / 2, now_end = 250,
                             date_now = 1000\<rparr>)\<rparr>
          \<lparr>sim_generatorId = ''caves'', runCount = 3, seedStart = None,
           sim_parameters = (None :: unit option)\<rparr> = Inr res
        \<and> simulationResults
            (store (run_events \<lparr>sim_now_start = 0, sim_now_end = 900,
                       run_env = (\<lambda>i. \<lparr>now_start = 0, random_delay = 1 / 2, now_end = 250,
                             date_now = 1000\<rparr>)\<rparr>
                     \<lparr>sim_generatorId = ''caves'', runCount = 3, seedStart = None,
                      sim_parameters = (None :: unit option)\<rparr>
                     [Resolve, Cancel, Resolve, Resolve]
                     (start_simulation \<lparr>sim_now_start = 0, sim_now_end = 900,
                          run_env = (\<lambda>i. \<lparr>now_start = 0, random_delay = 1 / 2, now_end = 250,
                             date_now = 1000\<rparr>)\<rparr>
                        \<lparr>sim_generatorId = ''caves'', runCount = 3, seedStart = None,
                         sim_parameters = (None :: unit option)\<rparr>
                        \<lparr>currentSeed = Num 42, lastResult = None, isGenerating = False,
                         store_error = None, simulationConfig = None,
                         simulationResults = None, simulationProgress = 0,
                         isSimulating = False\<rparr>)))
          = Some res
        \<and> runs res = 3)"
proof -
  define cfg :: "unit SimulationConfig" where
    "cfg = \<lparr>sim_generatorId = ''caves'', runCount = 3, seedStart = None, sim_parameters = None\<rparr>"
  define env where "env = \<lparr>sim_now_start = 0, sim_now_end = 900,
            run_env = (\<lambda>i. \<lparr>now_start = 0, random_delay = 1 / 2, now_end = 250,
                             date_now = 1000\<rparr>)\<rparr>"
  define st :: "unit GenerationState" where
    "st = \<lparr>currentSeed = Num 42, lastResult = None, isGenerating = False,
           store_error = None, simulationConfig = None,
           simulationResults = None, simulationProgress = 0,
           isSimulating = False\<rparr>"
  have n: "nat (runCount cfg) \<le> length (filter (\<lambda>e. e = Resolve) [Resolve, Cancel, Resolve, Resolve])"
    by (simp add: cfg_def)
  from cancellation_is_ignored [OF n, of env st] obtain res where
    "run_simulation env cfg = Inr res"
    "simulationResults
       (store (run_events env cfg [Resolve, Cancel, Resolve, Resolve]
                 (start_simulation env cfg st))) = Some res"
    "runs res = runCount cfg"
    by auto
  then have "run_simulation env cfg = Inr res
    \<and> simulationResults
       (store (run_events env cfg [Resolve, Cancel, Resolve, Resolve]
                 (start_simulation env cfg st))) = Some res
    \<and> runs res = 3"
    by (simp add: cfg_def)
  then have "\<exists>res. run_simulation env cfg = Inr res
    \<and> simulationResults
       (store (run_events env cfg [Resolve, Cancel, Resolve, Resolve]
                 (start_simulation env cfg st))) = Some res
    \<and> runs res = 3"
    by (rule exI)
  with n show ?thesis unfolding cfg_def env_def st_def by (rule conjI)
qed

text \<open>
  The claim C7 as it is written fails for a simulation of 100 runs that is cancelled when
  10 of them have ended: the caller receives no cancelled-state result but the
  \<open>SimulationResults\<close> of all 100 runs.
\<close>

theorem cancel_after_ten_of_hundred_counterexample:
  "(\<exists>finished. backend (run_events clock0 hundred_runs (replicate 10 Resolve)
                           (start_simulation clock0 hundred_runs idle_store))
                = Some (10, finished) \<and> length finished = 10)
   \<and> (\<exists>res. simulationResults
              (store (run_events clock0 hundred_runs
                        (replicate 10 Resolve @ [Cancel] @ replicate 90 Resolve)
                        (start_simulation clock0 hundred_runs idle_store)))
             = Some res
           \<and> run_simulation clock0 hundred_runs = Inr res
           \<and> runs res = 100)"
proof -
  have b: "backend (start_simulation clock0 hundred_runs idle_store) = Some (0, [])"
    by (simp add: start_simulation_def hundred_runs_def)
  have "int (0 + 10) < runCount hundred_runs" by (simp add: hundred_runs_def)
  from resolves_progress [OF b this, of clock0]
  have first: "\<exists>finished. backend (run_events clock0 hundred_runs (replicate 10 Resolve)
                           (start_simulation clock0 hundred_runs idle_store))
                = Some (10, finished) \<and> length finished = 10"
    by auto
  have "nat (runCount hundred_runs)
      \<le> length (filter (\<lambda>e. e = Resolve) (replicate 10 Resolve @ [Cancel] @ replicate 90 Resolve))"
    by (simp add: hundred_runs_def)
  from simulation_settles [OF this, of clock0 idle_store]
  have "\<exists>res. simulationResults
              (store (run_events clock0 hundred_runs
                        (replicate 10 Resolve @ [Cancel] @ replicate 90 Resolve)
                        (start_simulation clock0 hundred_runs idle_store)))
             = Some res
           \<and> run_simulation clock0 hundred_runs = Inr res
           \<and> runs res = 100"
    by (auto simp add: hundred_runs_def)
  with first show ?thesis by (rule conjI)
qed

section \<open>Rounding to a double\<close>

text \<open>The exponent of the last place of a number, and the double nearest to a number
  whose exponent is known: these give every rounded result below by arithmetic alone.\<close>

lemma expo_bounds:
  assumes "x \<noteq> 0"
  shows "2 powi (expo x + 52) \<le> \<bar>x\<bar>" "\<bar>x\<bar> < 2 powi (expo x + 53)"
proof -
  have "2 powi (expo x + 52) \<le> \<bar>x\<bar> \<and> \<bar>x\<bar> < 2 powi (expo x + 53)"
  proof (cases "1 \<le> \<bar>x\<bar>")
    case True
    define n where "n = \<lfloor>\<bar>x\<bar>\<rfloor>"
    define b where "b = bitlen n"
    have n: "0 < n" using True by (simp add: n_def)
    from bitlen_bounds [OF n] have lo: "2 ^ nat (b - 1) \<le> n" and hi: "n < 2 ^ nat b"
      by (simp_all add: b_def)
    have b: "1 \<le> b" using n by (simp add: b_def bitlen_alt_def)
    have e: "expo x = b - 53" using True by (simp add: expo_def b_def n_def)
    have "rat_of_int (2 ^ nat (b - 1)) \<le> of_int n" using lo by (simp only: of_int_le_iff)
    also have "\<dots> \<le> \<bar>x\<bar>" by (simp add: n_def)
    finally have 1: "2 powi (b - 1) \<le> \<bar>x\<bar>" using b by (simp add: power_int_def)
    have "n + 1 \<le> 2 ^ nat b" using hi by simp
    then have "rat_of_int (n + 1) \<le> of_int (2 ^ nat b)" by (simp only: of_int_le_iff)
    moreover have "\<bar>x\<bar> < of_int (n + 1)"
      using floor_correct [of "\<bar>x\<bar>"] by (simp add: n_def)
    ultimately have 2: "\<bar>x\<bar> < 2 powi b" using b by (simp add: power_int_def)
    from 1 2 show ?thesis by (simp add: e)
  next
    case False
    define q where "q = 1 / \<bar>x\<bar>"
    define n where "n = \<lceil>q\<rceil> - 1"
    define b where "b = bitlen n"
    have x: "0 < \<bar>x\<bar>" "\<bar>x\<bar> < 1" using assms False by simp_all
    then have q: "1 < q" by (simp add: q_def)
    then have "1 < \<lceil>q\<rceil>" by (simp add: less_ceiling_iff)
    then have n: "0 < n" by (simp add: n_def)
    have nq: "of_int n < q" "q \<le> of_int n + 1"
      by (simp_all add: n_def) linarith+
    from bitlen_bounds [OF n] have lo: "2 ^ nat (b - 1) \<le> n" and hi: "n < 2 ^ nat b"
      by (simp_all add: b_def)
    have b: "1 \<le> b" using n by (simp add: b_def bitlen_alt_def)
    have e: "expo x = - b - 52" using False by (simp add: expo_def b_def n_def q_def)
    have "(2::rat) ^ nat (b - 1) \<le> of_int n"
      using lo of_int_le_iff [of "2 ^ nat (b - 1)" n, where ?'a = rat] by simp
    with nq(1) have 1: "2 ^ nat (b - 1) < q" by linarith
    have "n + 1 \<le> 2 ^ nat b" using hi by simp
    then have "rat_of_int n + 1 \<le> 2 ^ nat b"
      using of_int_le_iff [of "n + 1" "2 ^ nat b", where ?'a = rat] by simp
    with nq(2) have 2: "q \<le> 2 ^ nat b" by linarith
    have xq: "\<bar>x\<bar> = 1 / q" by (simp add: q_def)
    have eb: "- b = - int (nat b)" "1 - b = - int (nat (b - 1))" using b by simp_all
    have pb: "(2::rat) powi (- b) = 1 / 2 ^ nat b" "(2::rat) powi (1 - b) = 1 / 2 ^ nat (b - 1)"
      unfolding eb by (simp_all only: power_int_minus power_int_of_nat inverse_eq_divide)
    have "1 / 2 ^ nat b \<le> 1 / q" using 2 q by (simp add: frac_le)
    then have 3: "2 powi (- b) \<le> \<bar>x\<bar>" by (simp only: pb xq)
    have "1 / q < 1 / 2 ^ nat (b - 1)" using 1 q by (simp add: frac_less2)
    then have 4: "\<bar>x\<bar> < 2 powi (1 - b)" by (simp only: pb xq)
    from 3 4 show ?thesis by (simp add: e)
  qed
  then show "2 powi (expo x + 52) \<le> \<bar>x\<bar>" "\<bar>x\<bar> < 2 powi (expo x + 53)" by simp_all
qed

lemma expo_eq:
  assumes "2 powi (e + 52) \<le> \<bar>x\<bar>" "\<bar>x\<bar> < 2 powi (e + 53)"
  shows "expo x = e"
proof -
  have "(0::rat) < 2 powi (e + 52)" by simp
  with assms(1) have "0 < \<bar>x\<bar>" by linarith
  then have "x \<noteq> 0" by simp
  note b = expo_bounds [OF this]
  have "2 powi (expo x + 52) < (2::rat) powi (e + 53)" using b(1) assms(2) by simp
  then have 1: "expo x + 52 < e + 53"
    using power_int_increasing [of "e + 53" "expo x + 52" "2::rat"] by (cases "expo x + 52 < e + 53") auto
  have "2 powi (e + 52) < (2::rat) powi (expo x + 53)" using b(2) assms(1) by simp
  then have 2: "e + 52 < expo x + 53"
    using power_int_increasing [of "expo x + 53" "e + 52" "2::rat"] by (cases "e + 52 < expo x + 53") auto
  from 1 2 show ?thesis by simp
qed

lemma round_even_bound:
  assumes "\<bar>t\<bar> < 2 ^ 53"
  shows "\<bar>rat_of_int (round_even t)\<bar> < 2 ^ 54"
proof -
  have "\<bar>rat_of_int (round_even t)\<bar> \<le> \<bar>of_int (round_even t) - t\<bar> + \<bar>t\<bar>" by linarith
  also have "\<dots> < 1 / 2 + 2 ^ 53" using round_even_near [of t] assms by linarith
  also have "\<dots> < 2 ^ 54" by simp
  finally show ?thesis .
qed

lemma fl_down:
  assumes k: "k \<le> 1074" and lo: "2 ^ 52 \<le> \<bar>x\<bar> * 2 ^ k" and hi: "\<bar>x\<bar> * 2 ^ k < 2 ^ 53"
    and m: "round_even (x * 2 ^ k) = m"
  shows "fl x = Num (of_int m / 2 ^ k)"
proof -
  have p: "(2::rat) powi (- int k) = 1 / 2 ^ k"
    by (simp only: power_int_minus power_int_of_nat inverse_eq_divide)
  have a: "(2::rat) powi (- int k + 52) = 2 powi (- int k) * 2 powi 52"
    "(2::rat) powi (- int k + 53) = 2 powi (- int k) * 2 powi 53"
    by (rule power_int_add, simp)+
  have n: "(2::rat) powi 52 = 2 ^ 52" "(2::rat) powi 53 = 2 ^ 53"
    using power_int_of_nat [of "2::rat" 52] power_int_of_nat [of "2::rat" 53] by simp_all
  have q: "(2::rat) powi (- int k + 52) = 2 ^ 52 / 2 ^ k"
    "(2::rat) powi (- int k + 53) = 2 ^ 53 / 2 ^ k"
    unfolding a p n by simp_all
  have "2 powi (- int k + 52) \<le> \<bar>x\<bar>" "\<bar>x\<bar> < 2 powi (- int k + 53)"
    unfolding q using lo hi by (simp_all add: field_simps)
  then have e: "expo x = - int k" by (rule expo_eq)
  have "(0::rat) < 2 ^ 52" by simp
  with lo have "0 < \<bar>x\<bar> * 2 ^ k" by linarith
  then have nz: "x \<noteq> 0" by auto
  have mx: "max (- int k) (- 1074) = - int k" using k by simp
  have "\<bar>x * 2 ^ k\<bar> < 2 ^ 53" using hi by (simp add: abs_mult)
  then have "\<bar>rat_of_int m\<bar> < 2 ^ 54" unfolding m [symmetric] by (rule round_even_bound)
  moreover have "\<bar>rat_of_int m / 2 ^ k\<bar> \<le> \<bar>rat_of_int m\<bar>"
    by (simp add: abs_divide divide_le_eq_1 mult_le_cancel_left1 field_simps)
  moreover have "(2::rat) ^ 54 \<le> 2 ^ 1024" by (rule power_increasing) simp_all
  ultimately have "\<not> (2::rat) ^ 1024 \<le> \<bar>rat_of_int m / 2 ^ k\<bar>" by linarith
  then show ?thesis
    using nz m by (simp add: fl_def e mx p Let_def)
qed

lemma fl_up:
  assumes lo: "2 ^ 52 * 2 ^ k \<le> \<bar>x\<bar>" and hi: "\<bar>x\<bar> < 2 ^ 53 * 2 ^ k"
    and m: "round_even (x / 2 ^ k) = m" and y: "\<bar>rat_of_int m * 2 ^ k\<bar> < 2 ^ 1024"
  shows "fl x = Num (of_int m * 2 ^ k)"
proof -
  have p: "(2::rat) powi (int k) = 2 ^ k" by (simp only: power_int_of_nat)
  have a: "(2::rat) powi (int k + 52) = 2 powi (int k) * 2 powi 52"
    "(2::rat) powi (int k + 53) = 2 powi (int k) * 2 powi 53"
    by (rule power_int_add, simp)+
  have n: "(2::rat) powi 52 = 2 ^ 52" "(2::rat) powi 53 = 2 ^ 53"
    using power_int_of_nat [of "2::rat" 52] power_int_of_nat [of "2::rat" 53] by simp_all
  have q: "(2::rat) powi (int k + 52) = 2 ^ 52 * 2 ^ k"
    "(2::rat) powi (int k + 53) = 2 ^ 53 * 2 ^ k"
    unfolding a p n by simp_all
  have "2 powi (int k + 52) \<le> \<bar>x\<bar>" "\<bar>x\<bar> < 2 powi (int k + 53)"
    unfolding q using lo hi by simp_all
  then have e: "expo x = int k" by (rule expo_eq)
  have "(0::rat) < 2 ^ 52 * 2 ^ k" by simp
  with lo have "0 < \<bar>x\<bar>" by linarith
  then have nz: "x \<noteq> 0" by auto
  have mx: "max (int k) (- 1074) = int k" by simp
  from y have "\<not> (2::rat) ^ 1024 \<le> \<bar>rat_of_int m * 2 ^ k\<bar>" by linarith
  then show ?thesis
    using nz m by (simp add: fl_def e mx p Let_def)
qed

lemma round_even_nearest:
  assumes "\<bar>y - of_int m\<bar> < 1 / 2"
  shows "round_even y = m"
proof (cases "of_int m \<le> y")
  case True
  have "\<lfloor>y\<rfloor> = m" by (rule floor_unique) (use True assms in linarith)+
  then show ?thesis using True assms by (simp add: round_even_def Let_def; linarith?)
next
  case False
  have d: "rat_of_int (m - 1) = of_int m - 1" by simp
  have a: "rat_of_int (m - 1) \<le> y" and b: "y < rat_of_int (m - 1) + 1"
    unfolding d using False assms by linarith+
  have "\<lfloor>y\<rfloor> = m - 1" using a b by (rule floor_unique)
  then show ?thesis using False assms by (simp add: round_even_def Let_def; linarith?)
qed

lemma round_even_tie:
  assumes "\<bar>y - of_int m\<bar> = 1 / 2" "even m"
  shows "round_even y = m"
proof (cases "of_int m \<le> y")
  case True
  then have y: "y = of_int m + 1 / 2" using assms(1) by linarith
  have "\<lfloor>y\<rfloor> = m" by (rule floor_unique) (simp_all add: y)
  then show ?thesis using assms(2) by (simp add: round_even_def Let_def y)
next
  case False
  then have y: "y = of_int (m - 1) + 1 / 2" using assms(1) by (simp; linarith?)
  have "\<lfloor>y\<rfloor> = m - 1" by (rule floor_unique) (simp_all add: y)
  then show ?thesis using assms(2) by (simp add: round_even_def Let_def y)
qed

lemma round_even_abs_ge:
  assumes "rat_of_int n \<le> \<bar>t\<bar>"
  shows "n \<le> \<bar>round_even t\<bar>"
proof -
  have "\<bar>t\<bar> \<le> \<bar>rat_of_int (round_even t)\<bar> + \<bar>of_int (round_even t) - t\<bar>" by linarith
  also have "\<dots> \<le> \<bar>rat_of_int (round_even t)\<bar> + 1 / 2" using round_even_near [of t] by linarith
  finally have "rat_of_int n - 1 / 2 \<le> rat_of_int \<bar>round_even t\<bar>" using assms by simp
  then have "rat_of_int n < rat_of_int (\<bar>round_even t\<bar> + 1)" by simp
  then have "n < \<bar>round_even t\<bar> + 1" by (simp only: of_int_less_iff)
  then show ?thesis by simp
qed

lemma fl_overflow:
  assumes "2 ^ 1024 \<le> \<bar>x\<bar>"
  shows "fl x = (if 0 < x then Infinity else NegInfinity)"
proof -
  have "(0::rat) < 2 ^ 1024" by simp
  with assms have "0 < \<bar>x\<bar>" by linarith
  then have nz: "x \<noteq> 0" by simp
  define e where "e = expo x"
  from expo_bounds [OF nz] have lo: "2 powi (e + 52) \<le> \<bar>x\<bar>" and hi: "\<bar>x\<bar> < 2 powi (e + 53)"
    by (simp_all add: e_def)
  have p: "(2::rat) powi 1024 = 2 ^ 1024" "(2::rat) powi 52 = 2 ^ 52" "(2::rat) powi 972 = 2 ^ 972"
    using power_int_of_nat [of "2::rat" 1024] power_int_of_nat [of "2::rat" 52]
      power_int_of_nat [of "2::rat" 972] by simp_all
  have "(2::rat) powi 1024 < 2 powi (e + 53)" using assms hi unfolding p by linarith
  then have "1024 < e + 53"
    using power_int_increasing [of "e + 53" 1024 "2::rat"] by (cases "1024 < e + 53") auto
  then have e: "972 \<le> e" by simp
  then have mx: "max e (- 1074) = e" by simp
  define t where "t = x / 2 powi e"
  have a: "(2::rat) powi (e + 52) = 2 powi e * 2 powi 52" by (rule power_int_add) simp
  have "2 powi e * 2 ^ 52 \<le> \<bar>x\<bar>" using lo unfolding a p .
  then have "2 ^ 52 \<le> \<bar>t\<bar>" by (simp add: t_def abs_divide field_simps)
  then have "rat_of_int (2 ^ 52) \<le> \<bar>t\<bar>" by simp
  then have "2 ^ 52 \<le> \<bar>round_even t\<bar>" by (rule round_even_abs_ge)
  then have r: "(2::rat) ^ 52 \<le> \<bar>of_int (round_even t)\<bar>"
    using of_int_le_iff [of "2 ^ 52" "\<bar>round_even t\<bar>", where ?'a = rat] by simp
  have s: "(2::rat) ^ 972 \<le> 2 powi e"
    using power_int_increasing [OF e, of "2::rat"] unfolding p by simp
  have "(2::rat) ^ 1024 = 2 ^ 52 * 2 ^ 972" by simp
  also have "\<dots> \<le> \<bar>of_int (round_even t)\<bar> * 2 powi e"
    by (rule mult_mono) (use r s in simp_all)
  finally have "(2::rat) ^ 1024 \<le> \<bar>of_int (round_even t) * 2 powi e\<bar>"
    by (simp add: abs_mult)
  then show ?thesis
    using nz by (simp add: fl_def e_def [symmetric] mx Let_def t_def [symmetric])
qed

text \<open>The roundings that the examples below go through.\<close>

lemma fl_step_1:
  "fl (1 / 3) = Num (6004799503160661 / 18014398509481984)"
  using fl_down [of 54 "(1 / 3)" "6004799503160661"]
  by (simp add: round_even_nearest)

lemma fl_step_2:
  "fl (12009599006321323 / 18014398509481984) = Num (3002399751580331 / 4503599627370496)"
  using fl_down [of 53 "(12009599006321323 / 18014398509481984)" "6004799503160662"]
  by (simp add: round_even_tie)

lemma fl_step_3:
  "fl (3002399751580331 / 9007199254740992) = Num (3002399751580331 / 9007199254740992)"
  using fl_down [of 54 "(3002399751580331 / 9007199254740992)" "6004799503160662"]
  by (simp add: round_even_nearest)

lemma fl_step_4:
  "fl (16225927682921337540117701660945 / 81129638414606681695789005144064) = Num (3602879701896397 / 18014398509481984)"
  using fl_down [of 55 "(16225927682921337540117701660945 / 81129638414606681695789005144064)" "7205759403792794"]
  by (simp add: round_even_nearest)

lemma fl_step_5:
  "fl (1 / 2) = Num (1 / 2)"
  using fl_down [of 53 "(1 / 2)" "4503599627370496"]
  by (simp add: round_even_nearest)

lemma fl_step_6:
  "fl (14411518807585587 / 18014398509481984) = Num (3602879701896397 / 4503599627370496)"
  using fl_down [of 53 "(14411518807585587 / 18014398509481984)" "7205759403792794"]
  by (simp add: round_even_tie)

lemma fl_step_7:
  "fl (2251799813685248 / 3602879701896397) = Num (5 / 8)"
  using fl_down [of 53 "(2251799813685248 / 3602879701896397)" "5629499534213120"]
  by (simp add: round_even_nearest)

lemma fl_step_8:
  "fl (5404319552844595 / 14411518807585588) = Num (6755399441055743 / 18014398509481984)"
  using fl_down [of 54 "(5404319552844595 / 14411518807585588)" "6755399441055743"]
  by (simp add: round_even_nearest)

lemma fl_step_9:
  "fl (- (3602879701896397 / 4503599627370496)) = Num (- (3602879701896397 / 4503599627370496))"
  using fl_down [of 53 "(- (3602879701896397 / 4503599627370496))" "(- 7205759403792794)"]
  by (simp add: round_even_nearest)

lemma fl_step_10:
  "fl (- (225179981368525 / 2251799813685248)) = Num (- (225179981368525 / 2251799813685248))"
  using fl_down [of 56 "(- (225179981368525 / 2251799813685248))" "(- 7205759403792800)"]
  by (simp add: round_even_nearest)

lemma fl_step_11:
  "fl (- (3 / 36028797018963968)) = Num (- (3 / 36028797018963968))"
  using fl_down [of 106 "(- (3 / 36028797018963968))" "(- 6755399441055744)"]
  by (simp add: round_even_nearest)

lemma fl_step_12:
  "fl (28823037615171176 / 3) = Num 9607679205057058"
  using fl_up [of 1 "(28823037615171176 / 3)" "4803839602528529"]
  by (simp add: round_even_nearest)

lemma fl_step_13:
  "fl (- (25220157913274776 / 3)) = Num (- 8406719304424925)"
  using fl_up [of 0 "(- (25220157913274776 / 3))" "(- 8406719304424925)"]
  by (simp add: round_even_nearest)

lemma fl_step_14:
  "fl (- (3602879701896397 / 3)) = Num (- (4803839602528529 / 4))"
  using fl_down [of 2 "(- (3602879701896397 / 3))" "(- 4803839602528529)"]
  by (simp add: round_even_nearest)


lemma fl_step_15:
  "fl (1 / 2 + 5010420900022432 * 2 ^ 971) = Num (5010420900022432 * 2 ^ 971)"
  using fl_up [of 971 "1 / 2 + 5010420900022432 * 2 ^ 971" 5010420900022432]
  by (simp add: round_even_nearest)

lemma fl_step_16:
  "fl (5010420900022432 * 2 ^ 971 + 5010420900022432 * 2 ^ 971) = Infinity"
  using fl_overflow [of "5010420900022432 * 2 ^ 971 + 5010420900022432 * 2 ^ 971"] by simp

lemmas fl_steps = fl_step_1 fl_step_2 fl_step_3 fl_step_4 fl_step_5 fl_step_6 fl_step_7
  fl_step_8 fl_step_9 fl_step_10 fl_step_11 fl_step_12 fl_step_13 fl_step_14

section \<open>Branch weights\<close>

text \<open>
  Claim C8 at the weights \<open>0.5, 0.3\<close>: \<open>addPath\<close> passes on the vector
  \<open>0.33333333333333337, 0.2, 0.3333333333333333\<close>, whose sum is near \<open>0.8667\<close>, not within
  \<open>10^-9\<close> of 1. \<open>addPath\<close> multiplies the old weights by \<open>1 - 1 / (n + 1)\<close> and does not
  divide by their sum.
\<close>

theorem addPath_keeps_a_sum_that_is_not_one:
  "addPath [Num (1 / 2), d_0_3]
     = [Num (3002399751580331 / 9007199254740992),
        Num (3602879701896397 / 18014398509481984),
        Num (6004799503160661 / 18014398509481984)]
   \<and> \<not> sums_to_one (addPath [Num (1 / 2), d_0_3])"
  by (simp add: addPath_def Let_def d_0_3_def sums_to_one_def fl_steps)

text \<open>
  The other two operations divide by the sum: on the same two weights \<open>updateWeight\<close>, and
  on them and a third one \<open>removePath\<close>, pass on \<open>0.625, 0.37499999999999994\<close>, which sums to
  one within the tolerance. So does what \<open>addPath\<close> passes on for weights that sum to one.
\<close>

lemma updateWeight_and_removePath_divide_by_the_sum:
  "updateWeight 0 (Num 50) [Num (1 / 2), d_0_3]
     = [Some (Num (5 / 8)), Some (Num (6755399441055743 / 18014398509481984))]"
  "removePath 2 [Num (1 / 2), d_0_3, d_0_2]
     = Some [Num (5 / 8), Num (6755399441055743 / 18014398509481984)]"
  "sums_to_one [Num (5 / 8), Num (6755399441055743 / 18014398509481984)]"
  "removePath 1 [Num (1 / 2), Num (1 / 2)] = None"
  "sums_to_one (addPath [Num (1 / 2), Num (1 / 2)])"
  by (simp_all add: addPath_def updateWeight_def removePath_def without_def Let_def
       d_0_3_def d_0_2_def sums_to_one_def List.map_filter_def fl_steps)

text \<open>
  Dividing by the sum does not give a sum of one for every vector either: after a
  cancellation the rounded sum of \<open>-0.8, 0.7, 0.1\<close> is \<open>-3 / 2^55\<close> and the three quotients
  sum to \<open>0.75\<close>, and a sum that overflows to infinity gives the weights \<open>0, 0, 0\<close>.
\<close>

lemma dividing_by_a_rounded_sum:
  "removePath 0 [Num 1, d_m0_8, d_0_7, d_0_1]
     = Some [Num 9607679205057058, Num (- 8406719304424925), Num (- 4803839602528529 / 4)]"
  "updateWeight 0 (Num 50) [d_1e308, d_1e308, d_1e308]
     = [Some (Num 0), Some (Num 0), Some (Num 0)]"
  using fl_step_15 fl_step_16
  by (simp_all add: removePath_def updateWeight_def without_def Let_def d_m0_8_def d_0_7_def
       d_0_1_def d_1e308_def List.map_filter_def fl_steps)

end
